theory Spec2Isabelle
  imports Main "HOL-Library.AList"
begin

section \<open>JavaScript values and JSON texts\<close>

text \<open>
  The cache module \<^verbatim>\<open>src/cache.js\<close> stores arbitrary JavaScript values, serialises them
  with \<^verbatim>\<open>JSON.stringify\<close> and reads them back with \<^verbatim>\<open>JSON.parse\<close>. Numbers are
  modelled as whole numbers (milliseconds and TTLs are whole in practice) together with
  the three non-finite values; fractions are outside the model. An object is the list of
  its own properties in enumeration order; the names it inherits from
  \<^verbatim>\<open>Object.prototype\<close> come in with the registry, the one place where the code reads and
  writes properties under names chosen by its caller.
\<close>

datatype jsnum = Finite int | PosInfinity | NegInfinity | NaN

datatype jsval =
    Undefined
  | Null
  | Bool bool
  | Num jsnum
  | Str string
  | Arr "jsval list"
  | Obj "(string \<times> jsval) list"

text \<open>
  A JSON text is identified with its syntax tree. A number in a JSON text is finite;
  \<^verbatim>\<open>undefined\<close> has no JSON text at all.
\<close>

datatype json =
    JNull
  | JBool bool
  | JNum int
  | JStr string
  | JArr "json list"
  | JObj "(string \<times> json) list"

datatype js_error = TypeError | QuotaExceededError

text \<open>\<^verbatim>\<open>Date.now() + ttlMs\<close>, for the integer \<^verbatim>\<open>Date.now()\<close> and a number \<^verbatim>\<open>ttlMs\<close>.\<close>

fun plus_now :: "int \<Rightarrow> jsnum \<Rightarrow> jsnum" where
  "plus_now now (Finite d) = Finite (now + d)"
| "plus_now now PosInfinity = PosInfinity"
| "plus_now now NegInfinity = NegInfinity"
| "plus_now now NaN = NaN"

text \<open>\<^verbatim>\<open>Date.now() > e\<close> for a number \<^verbatim>\<open>e\<close>: a comparison with \<^verbatim>\<open>NaN\<close> is false.\<close>

fun now_gt :: "int \<Rightarrow> jsnum \<Rightarrow> bool" where
  "now_gt now (Finite e) = (now > e)"
| "now_gt now PosInfinity = False"
| "now_gt now NegInfinity = True"
| "now_gt now NaN = False"

text \<open>
  \<^verbatim>\<open>Date.now() > expiry\<close> for an arbitrary value: the relational comparison converts
  \<^verbatim>\<open>expiry\<close> to a number first (\<^verbatim>\<open>undefined\<close> to \<^verbatim>\<open>NaN\<close>, \<^verbatim>\<open>null\<close> to 0, a boolean to
  0 or 1). The conversion of a string, an array or an object goes through JavaScript's
  number grammar and \<^verbatim>\<open>toString\<close>; these are outside the model, and the result is
  \<open>None\<close> there.
\<close>

fun now_gt_val :: "int \<Rightarrow> jsval \<Rightarrow> bool option" where
  "now_gt_val now Undefined = Some False"
| "now_gt_val now Null = Some (now > 0)"
| "now_gt_val now (Bool b) = Some (now > (if b then 1 else 0))"
| "now_gt_val now (Num e) = Some (now_gt now e)"
| "now_gt_val now (Str s) = None"
| "now_gt_val now (Arr xs) = None"
| "now_gt_val now (Obj kvs) = None"

text \<open>Truthiness, as \<^verbatim>\<open>!x\<close> and \<^verbatim>\<open>x || y\<close> test it.\<close>

fun truthy :: "jsval \<Rightarrow> bool" where
  "truthy Undefined = False"
| "truthy Null = False"
| "truthy (Bool b) = b"
| "truthy (Num (Finite n)) = (n \<noteq> 0)"
| "truthy (Num NaN) = False"
| "truthy (Num PosInfinity) = True"
| "truthy (Num NegInfinity) = True"
| "truthy (Str s) = (s \<noteq> [])"
| "truthy (Arr xs) = True"
| "truthy (Obj kvs) = True"

text \<open>\<^verbatim>\<open>x || y\<close>.\<close>

definition js_or :: "jsval \<Rightarrow> jsval \<Rightarrow> jsval" where
  "js_or x y = (if truthy x then x else y)"

text \<open>
  \<^verbatim>\<open>JSON.stringify\<close>: \<open>None\<close> is the result \<^verbatim>\<open>undefined\<close>. A non-finite number is
  written as \<^verbatim>\<open>null\<close>; an \<^verbatim>\<open>undefined\<close> array element is written as \<^verbatim>\<open>null\<close>; a property
  whose value is \<^verbatim>\<open>undefined\<close> is left out.
\<close>

fun JSON_stringify :: "jsval \<Rightarrow> json option" where
  "JSON_stringify Undefined = None"
| "JSON_stringify Null = Some JNull"
| "JSON_stringify (Bool b) = Some (JBool b)"
| "JSON_stringify (Num (Finite n)) = Some (JNum n)"
| "JSON_stringify (Num PosInfinity) = Some JNull"
| "JSON_stringify (Num NegInfinity) = Some JNull"
| "JSON_stringify (Num NaN) = Some JNull"
| "JSON_stringify (Str s) = Some (JStr s)"
| "JSON_stringify (Arr xs) =
     Some (JArr (map (\<lambda>x. case JSON_stringify x of None \<Rightarrow> JNull | Some j \<Rightarrow> j) xs))"
| "JSON_stringify (Obj kvs) =
     Some (JObj (concat (map (\<lambda>kv. case JSON_stringify (snd kv) of
                                      None \<Rightarrow> []
                                    | Some j \<Rightarrow> [(fst kv, j)]) kvs)))"

text \<open>
  \<^verbatim>\<open>JSON.parse\<close> of a JSON text. When a name occurs twice in an object, the later value
  wins and the property keeps the position of its first occurrence.
\<close>

definition object_of_members :: "(string \<times> jsval) list \<Rightarrow> (string \<times> jsval) list" where
  "object_of_members kvs = foldl (\<lambda>acc kv. AList.update (fst kv) (snd kv) acc) [] kvs"

fun JSON_parse :: "json \<Rightarrow> jsval" where
  "JSON_parse JNull = Null"
| "JSON_parse (JBool b) = Bool b"
| "JSON_parse (JNum n) = Num (Finite n)"
| "JSON_parse (JStr s) = Str s"
| "JSON_parse (JArr xs) = Arr (map JSON_parse xs)"
| "JSON_parse (JObj kvs) =
     Obj (object_of_members (map (\<lambda>kv. (fst kv, JSON_parse (snd kv))) kvs))"

text \<open>
  The values that JSON represents exactly: no \<^verbatim>\<open>undefined\<close>, no non-finite number, at
  any depth, and no property name twice in one object.
\<close>

fun serializable :: "jsval \<Rightarrow> bool" where
  "serializable Undefined = False"
| "serializable Null = True"
| "serializable (Bool b) = True"
| "serializable (Num (Finite n)) = True"
| "serializable (Num PosInfinity) = False"
| "serializable (Num NegInfinity) = False"
| "serializable (Num NaN) = False"
| "serializable (Str s) = True"
| "serializable (Arr xs) = list_all serializable xs"
| "serializable (Obj kvs) =
     (distinct (map fst kvs) \<and> list_all (\<lambda>kv. serializable (snd kv)) kvs)"

text \<open>Reading an own property: \<^verbatim>\<open>undefined\<close> when the object has none of that name.\<close>

definition own_property :: "(string \<times> jsval) list \<Rightarrow> string \<Rightarrow> jsval" where
  "own_property kvs k = (case map_of kvs k of None \<Rightarrow> Undefined | Some v \<Rightarrow> v)"

section \<open>The browser's localStorage\<close>

text \<open>
  \<^verbatim>\<open>localStorage\<close> maps keys to strings and enumerates its keys by index. A stored
  string is either the JSON text of a syntax tree, or a string that is no JSON text
  (\<^verbatim>\<open>JSON.parse\<close> throws on it; the empty string is one of them). The browser refuses a
  write when the quota is exhausted or the storage is disabled: \<open>full\<close> says that
  \<^verbatim>\<open>setItem\<close> throws \<^verbatim>\<open>QuotaExceededError\<close>. The size of the entries is not modelled.
\<close>

datatype stored = NotJson string | JsonText json

record localStorage =
  entries :: "(string \<times> stored) list"
  full :: bool

definition getItem :: "localStorage \<Rightarrow> string \<Rightarrow> stored option" where
  "getItem ls k = map_of (entries ls) k"

definition setItem :: "string \<Rightarrow> stored \<Rightarrow> localStorage \<Rightarrow> js_error + localStorage" where
  "setItem k v ls =
     (if full ls then Inl QuotaExceededError
      else Inr (ls\<lparr>entries := AList.update k v (entries ls)\<rparr>))"

text \<open>
  The string that \<^verbatim>\<open>localStorage.setItem(k, JSON.stringify(v))\<close> stores: \<^verbatim>\<open>setItem\<close>
  converts its argument to a string, so the result \<^verbatim>\<open>undefined\<close> is stored as the
  nine letters of that word, which are no JSON text.
\<close>

definition stringified :: "jsval \<Rightarrow> stored" where
  "stringified v = (case JSON_stringify v of None \<Rightarrow> NotJson ''undefined'' | Some j \<Rightarrow> JsonText j)"

definition removeItem :: "string \<Rightarrow> localStorage \<Rightarrow> localStorage" where
  "removeItem k ls = ls\<lparr>entries := AList.delete k (entries ls)\<rparr>"

definition storage_length :: "localStorage \<Rightarrow> nat" where
  "storage_length ls = length (entries ls)"

text \<open>\<^verbatim>\<open>localStorage.key(i)\<close>: \<^verbatim>\<open>null\<close> (here \<open>None\<close>) when \<open>i\<close> is out of range.\<close>

definition storage_key :: "localStorage \<Rightarrow> nat \<Rightarrow> string option" where
  "storage_key ls i = (if i < length (entries ls) then Some (fst (entries ls ! i)) else None)"

section \<open>The persistent cache\<close>

definition CACHE_PREFIX :: string where
  "CACHE_PREFIX = ''hypercave_''"

definition RESOURCE_CACHE_KEY :: string where
  "RESOURCE_CACHE_KEY = ''resource_cache''"

text \<open>
  The destructuring \<^verbatim>\<open>const { value, expiry } = JSON.parse(item)\<close>: it throws a
  \<^verbatim>\<open>TypeError\<close> on \<^verbatim>\<open>null\<close>; on an object it reads the two properties; any other parsed
  value (a boolean, a number, a string, an array) has neither property.
\<close>

fun destructure_item :: "jsval \<Rightarrow> js_error + (jsval \<times> jsval)" where
  "destructure_item Undefined = Inl TypeError"
| "destructure_item Null = Inl TypeError"
| "destructure_item (Obj kvs) = Inr (own_property kvs ''value'', own_property kvs ''expiry'')"
| "destructure_item v = Inr (Undefined, Undefined)"

text \<open>
  \<^verbatim>\<open>cache.get(key)\<close> at time \<open>now\<close> (the value of \<^verbatim>\<open>Date.now()\<close>). It returns the value
  and the storage it leaves. Every exception inside is caught and turned into \<^verbatim>\<open>null\<close>.
  The result is \<open>None\<close> only where \<open>now_gt_val\<close> is.
\<close>

definition cache_get :: "int \<Rightarrow> string \<Rightarrow> localStorage \<Rightarrow> (jsval \<times> localStorage) option" where
  "cache_get now key ls =
     (case getItem ls (CACHE_PREFIX @ key) of
        None \<Rightarrow> Some (Null, ls)
      | Some (NotJson s) \<Rightarrow> Some (Null, ls)
      | Some (JsonText j) \<Rightarrow>
          (case destructure_item (JSON_parse j) of
             Inl e \<Rightarrow> Some (Null, ls)
           | Inr (v, expiry) \<Rightarrow>
               (if expiry = Num PosInfinity then Some (v, ls)
                else (case now_gt_val now expiry of
                        None \<Rightarrow> None
                      | Some True \<Rightarrow> Some (Null, removeItem (CACHE_PREFIX @ key) ls)
                      | Some False \<Rightarrow> Some (v, ls)))))"

text \<open>
  \<^verbatim>\<open>cache.set(key, value, ttlMs)\<close> at time \<open>now\<close>. A refused write is caught (and logged):
  the storage stays as it was.
\<close>

definition cache_set :: "int \<Rightarrow> string \<Rightarrow> jsval \<Rightarrow> jsnum \<Rightarrow> localStorage \<Rightarrow> localStorage" where
  "cache_set now key v ttlMs ls =
     (let item = Obj [(''value'', v), (''expiry'', Num (plus_now now ttlMs))]
      in case setItem (CACHE_PREFIX @ key) (stringified item) ls of
           Inl e \<Rightarrow> ls
         | Inr ls' \<Rightarrow> ls')"

definition cache_remove :: "string \<Rightarrow> localStorage \<Rightarrow> localStorage" where
  "cache_remove key ls = removeItem (CACHE_PREFIX @ key) ls"

text \<open>\<^verbatim>\<open>key.startsWith(prefix)\<close>.\<close>

definition startsWith :: "string \<Rightarrow> string \<Rightarrow> bool" where
  "startsWith s p = (take (length p) s = p)"

text \<open>
  The loop of \<^verbatim>\<open>cache.clearAll\<close> over the indices of the storage: \<open>i\<close> is the loop counter and
  \<open>keys\<close> the array built so far.
\<close>

function collect_keys :: "nat \<Rightarrow> string list \<Rightarrow> localStorage \<Rightarrow> string list" where
  "collect_keys i keys ls =
     (if i < storage_length ls
      then collect_keys (i + 1)
             (case storage_key ls i of
                None \<Rightarrow> keys
              | Some key \<Rightarrow> if key \<noteq> [] \<and> startsWith key CACHE_PREFIX then keys @ [key] else keys)
             ls
      else keys)"
  by pat_completeness auto
termination
  by (relation "measure (\<lambda>(i, keys, ls). storage_length ls - i)") auto

definition cache_clearAll :: "localStorage \<Rightarrow> localStorage" where
  "cache_clearAll ls = foldl (\<lambda>st k. removeItem k st) ls (collect_keys 0 [] ls)"

section \<open>The session cache\<close>

text \<open>
  \<^verbatim>\<open>sessionCache.data\<close> is a \<^verbatim>\<open>Map\<close> from keys to items \<^verbatim>\<open>{ value, expiry }\<close>; the values
  are kept as they are, without serialisation.
\<close>

record session_item =
  item_value :: jsval
  item_expiry :: jsnum

type_synonym session_data = "string \<rightharpoonup> session_item"

definition sessionCache_get :: "int \<Rightarrow> string \<Rightarrow> session_data \<Rightarrow> jsval \<times> session_data" where
  "sessionCache_get now key data =
     (case data key of
        None \<Rightarrow> (Null, data)
      | Some item \<Rightarrow>
          if item_expiry item \<noteq> PosInfinity \<and> now_gt now (item_expiry item)
          then (Null, data(key := None))
          else (item_value item, data))"

definition sessionCache_set :: "int \<Rightarrow> string \<Rightarrow> jsval \<Rightarrow> jsnum \<Rightarrow> session_data \<Rightarrow> session_data" where
  "sessionCache_set now key v ttlMs data =
     data(key \<mapsto> \<lparr>item_value = v, item_expiry = plus_now now ttlMs\<rparr>)"

definition sessionCache_remove :: "string \<Rightarrow> session_data \<Rightarrow> session_data" where
  "sessionCache_remove key data = data(key := None)"

definition sessionCache_clear :: "session_data \<Rightarrow> session_data" where
  "sessionCache_clear data = Map.empty"

section \<open>The permanent resource registry\<close>

text \<open>
  \<^verbatim>\<open>permanentResourceCache\<close> keeps one object, from ticker to \<^verbatim>\<open>{ address, iconUrl }\<close>,
  under the single key \<^verbatim>\<open>CACHE_PREFIX + RESOURCE_CACHE_KEY\<close>.
\<close>

record resource_info =
  ticker :: string
  address :: string
  iconUrl :: jsval

definition permanentResourceCache_getAll :: "localStorage \<Rightarrow> jsval" where
  "permanentResourceCache_getAll ls =
     (case getItem ls (CACHE_PREFIX @ RESOURCE_CACHE_KEY) of
        None \<Rightarrow> Obj []
      | Some (NotJson s) \<Rightarrow> Obj []
      | Some (JsonText j) \<Rightarrow> JSON_parse j)"

text \<open>
  The registry uses a plain object as its map, and the tickers are property names chosen
  by the caller. Three rules of the language show there. First, an object enumerates the
  names that are array indices (the decimal numerals from 0 to 4294967294, without a
  leading zero) before all other names, in ascending order, whenever they were created.
\<close>

fun digits_value :: "nat \<Rightarrow> string \<Rightarrow> nat option" where
  "digits_value acc [] = Some acc"
| "digits_value acc (c # cs) =
     (case map_of (zip ''0123456789'' [0..<10]) c of
        None \<Rightarrow> None
      | Some d \<Rightarrow> digits_value (10 * acc + d) cs)"

definition array_index :: "string \<Rightarrow> nat option" where
  "array_index k =
     (if k = [] \<or> (hd k = CHR ''0'' \<and> tl k \<noteq> []) then None
      else case digits_value 0 k of
             None \<Rightarrow> None
           | Some n \<Rightarrow> if n < 4294967295 then Some n else None)"

fun insert_index :: "nat \<Rightarrow> string \<times> jsval \<Rightarrow> (string \<times> jsval) list \<Rightarrow> (string \<times> jsval) list" where
  "insert_index n new [] = [new]"
| "insert_index n new (p # ps) =
     (case array_index (fst p) of
        None \<Rightarrow> new # p # ps
      | Some m \<Rightarrow> if m < n then p # insert_index n new ps else new # p # ps)"

text \<open>
  Writing an own property: a property that exists keeps its place; a new one is placed
  by the rule above.
\<close>

definition define_property :: "string \<Rightarrow> jsval \<Rightarrow> (string \<times> jsval) list \<Rightarrow> (string \<times> jsval) list" where
  "define_property k v kvs =
     (if map_of kvs k \<noteq> None then AList.update k v kvs
      else case array_index k of
             None \<Rightarrow> kvs @ [(k, v)]
           | Some n \<Rightarrow> insert_index n (k, v) kvs)"

text \<open>
  Second, every object made by a literal or by \<^verbatim>\<open>JSON.parse\<close> inherits the members of
  \<^verbatim>\<open>Object.prototype\<close>. All of them are writable data properties, which an assignment
  shadows by an own property, except \<^verbatim>\<open>__proto__\<close>: that one is an accessor, and the
  assignment \<^verbatim>\<open>o["__proto__"] = v\<close> calls its setter, which replaces the prototype of
  \<open>o\<close> when \<open>v\<close> is an object and does nothing when \<open>v\<close> is another value, and in
  neither case creates a property. Only an object that already has an own property of
  that name (\<^verbatim>\<open>JSON.parse\<close> creates one from a member \<^verbatim>\<open>"__proto__"\<close>) has it replaced.
\<close>

definition object_prototype_names :: "string list" where
  "object_prototype_names =
     [''constructor'', ''__defineGetter__'', ''__defineSetter__'', ''hasOwnProperty'',
      ''__lookupGetter__'', ''__lookupSetter__'', ''isPrototypeOf'', ''propertyIsEnumerable'',
      ''toString'', ''valueOf'', ''__proto__'', ''toLocaleString'']"

definition put_property :: "string \<Rightarrow> jsval \<Rightarrow> (string \<times> jsval) list \<Rightarrow> (string \<times> jsval) list" where
  "put_property k v kvs =
     (if k = ''__proto__'' \<and> map_of kvs k = None then kvs else define_property k v kvs)"

text \<open>
  The assignment \<^verbatim>\<open>o[k] = v\<close> in strict mode (the file is an ES module), on a value \<open>o\<close>
  that \<^verbatim>\<open>JSON.parse\<close> or an object literal made. On an object it gives the own properties
  of \<open>put_property\<close>; the prototype that the setter of \<^verbatim>\<open>__proto__\<close> installs has no part
  in \<^verbatim>\<open>JSON.stringify\<close> and is not recorded. The setter called with \<^verbatim>\<open>null\<close> cuts the
  object off from \<^verbatim>\<open>Object.prototype\<close>; a later assignment then behaves differently, and
  this case is outside the model (\<open>None\<close>). On \<^verbatim>\<open>null\<close> and on a primitive the assignment
  throws a \<^verbatim>\<open>TypeError\<close>. On an array the effect depends on whether \<open>k\<close> is an index;
  arrays are outside the model too.
\<close>

fun assign_property :: "jsval \<Rightarrow> string \<Rightarrow> jsval \<Rightarrow> (js_error + jsval) option" where
  "assign_property (Obj kvs) k v =
     (if k = ''__proto__'' \<and> map_of kvs k = None \<and> v = Null then None
      else Some (Inr (Obj (put_property k v kvs))))"
| "assign_property Undefined k v = Some (Inl TypeError)"
| "assign_property Null k v = Some (Inl TypeError)"
| "assign_property (Bool b) k v = Some (Inl TypeError)"
| "assign_property (Num n) k v = Some (Inl TypeError)"
| "assign_property (Str s) k v = Some (Inl TypeError)"
| "assign_property (Arr xs) k v = None"

text \<open>
  Third, the read \<^verbatim>\<open>o[k]\<close> answers with the own property when there is one, and otherwise
  with the member of \<^verbatim>\<open>Object.prototype\<close> of that name: a built-in function, or under
  \<^verbatim>\<open>__proto__\<close> the prototype object itself. These are no JSON values; the result of a
  read says which member it is. A boolean, a number, a string and an array answer to the
  members of their own prototypes, and to indices and \<^verbatim>\<open>length\<close>; they are outside the
  model here (\<open>None\<close>).
\<close>

datatype looked_up = Value jsval | ObjectPrototypeMember string

fun read_property :: "jsval \<Rightarrow> string \<Rightarrow> (js_error + looked_up) option" where
  "read_property (Obj kvs) k =
     (case map_of kvs k of
        Some v \<Rightarrow> Some (Inr (Value v))
      | None \<Rightarrow> if k \<in> set object_prototype_names then Some (Inr (ObjectPrototypeMember k))
                else Some (Inr (Value Undefined)))"
| "read_property Undefined k = Some (Inl TypeError)"
| "read_property Null k = Some (Inl TypeError)"
| "read_property (Bool b) k = None"
| "read_property (Num n) k = None"
| "read_property (Str s) k = None"
| "read_property (Arr xs) k = None"

text \<open>The object literal \<^verbatim>\<open>{ address, iconUrl: iconUrl || null }\<close>.\<close>

definition registry_entry :: "string \<Rightarrow> jsval \<Rightarrow> jsval" where
  "registry_entry addr icon = Obj [(''address'', Str addr), (''iconUrl'', js_or icon Null)]"

text \<open>
  \<^verbatim>\<open>localStorage.setItem(CACHE_PREFIX + RESOURCE_CACHE_KEY, JSON.stringify(resources))\<close>
  inside the \<^verbatim>\<open>try\<close>: a refused write is caught and leaves the storage as it was.
\<close>

definition write_registry :: "jsval \<Rightarrow> localStorage \<Rightarrow> localStorage" where
  "write_registry resources ls =
     (case setItem (CACHE_PREFIX @ RESOURCE_CACHE_KEY) (stringified resources) ls of
        Inl e \<Rightarrow> ls
      | Inr ls' \<Rightarrow> ls')"

text \<open>
  \<^verbatim>\<open>permanentResourceCache.add(ticker, address, iconUrl)\<close>. An exception of the assignment
  is caught, and nothing is written then.
\<close>

definition permanentResourceCache_add :: "string \<Rightarrow> string \<Rightarrow> jsval \<Rightarrow> localStorage \<Rightarrow> localStorage option" where
  "permanentResourceCache_add tick addr icon ls =
     (case assign_property (permanentResourceCache_getAll ls) tick (registry_entry addr icon) of
        None \<Rightarrow> None
      | Some (Inl e) \<Rightarrow> Some ls
      | Some (Inr resources) \<Rightarrow> Some (write_registry resources ls))"

text \<open>The loop \<^verbatim>\<open>for (const r of resources) cache[r.ticker] = {...}\<close>.\<close>

fun assign_all :: "jsval \<Rightarrow> resource_info list \<Rightarrow> (js_error + jsval) option" where
  "assign_all cache [] = Some (Inr cache)"
| "assign_all cache (r # rs) =
     (case assign_property cache (ticker r) (registry_entry (address r) (iconUrl r)) of
        None \<Rightarrow> None
      | Some (Inl e) \<Rightarrow> Some (Inl e)
      | Some (Inr cache') \<Rightarrow> assign_all cache' rs)"

text \<open>The properties of an object after the loop of \<^verbatim>\<open>addMultiple\<close> has run over \<open>rs\<close>.\<close>

definition put_all :: "(string \<times> jsval) list \<Rightarrow> resource_info list \<Rightarrow> (string \<times> jsval) list" where
  "put_all kvs rs =
     foldl (\<lambda>acc r. put_property (ticker r) (registry_entry (address r) (iconUrl r)) acc) kvs rs"

definition permanentResourceCache_addMultiple :: "resource_info list \<Rightarrow> localStorage \<Rightarrow> localStorage option" where
  "permanentResourceCache_addMultiple resources ls =
     (case assign_all (permanentResourceCache_getAll ls) resources of
        None \<Rightarrow> None
      | Some (Inl e) \<Rightarrow> Some ls
      | Some (Inr cache) \<Rightarrow> Some (write_registry cache ls))"

text \<open>
  \<^verbatim>\<open>permanentResourceCache.get(ticker)\<close>, that is \<^verbatim>\<open>all[ticker] || null\<close>. It has no
  \<^verbatim>\<open>try\<close>: a \<^verbatim>\<open>TypeError\<close> of the read reaches the caller. A member of
  \<^verbatim>\<open>Object.prototype\<close> is a function or an object, hence truthy, and is returned as it is.
\<close>

definition permanentResourceCache_get :: "string \<Rightarrow> localStorage \<Rightarrow> (js_error + looked_up) option" where
  "permanentResourceCache_get tick ls =
     (case read_property (permanentResourceCache_getAll ls) tick of
        None \<Rightarrow> None
      | Some (Inl e) \<Rightarrow> Some (Inl e)
      | Some (Inr (Value v)) \<Rightarrow> Some (Inr (Value (js_or v Null)))
      | Some (Inr (ObjectPrototypeMember k)) \<Rightarrow> Some (Inr (ObjectPrototypeMember k)))"

definition permanentResourceCache_clear :: "localStorage \<Rightarrow> localStorage" where
  "permanentResourceCache_clear ls = removeItem (CACHE_PREFIX @ RESOURCE_CACHE_KEY) ls"

section \<open>The manifest builders\<close>

text \<open>
  The builders of \<^verbatim>\<open>manifests.js\<close> fill string templates. Every argument is a string and
  is copied as it is, without escaping. \<^verbatim>\<open>CONFIG.componentAddress\<close> comes from
  \<^verbatim>\<open>config.js\<close> and is a parameter here. A character is a code unit below 256.
\<close>

record resource =
  resourceAddress :: string
  amount :: string

text \<open>\<^verbatim>\<open>Array.prototype.join(separator)\<close> on an array of strings.\<close>

fun array_join :: "string \<Rightarrow> string list \<Rightarrow> string" where
  "array_join sep [] = []"
| "array_join sep [x] = x"
| "array_join sep (x # y # ys) = x @ sep @ array_join sep (y # ys)"

text \<open>
  \<^verbatim>\<open>String.prototype.trim\<close>: it removes white space and line terminators from both ends.
  Below 256 these are tab, line feed, vertical tab, form feed, carriage return, space and
  the no-break space.
\<close>

definition isWhiteSpace :: "char \<Rightarrow> bool" where
  "isWhiteSpace c =
     (c \<in> set [CHR 0x09, CHR 0x0A, CHR 0x0B, CHR 0x0C, CHR 0x0D, CHR 0x20, CHR 0xA0])"

definition trim :: "string \<Rightarrow> string" where
  "trim s = rev (dropWhile isWhiteSpace (rev (dropWhile isWhiteSpace s)))"

text \<open>
  The decimal digits of an array index, as the template \<^verbatim>\<open>${index}\<close> writes a number.
\<close>

definition digit_char :: "nat \<Rightarrow> char" where
  "digit_char d = ''0123456789'' ! d"

fun nat_to_string :: "nat \<Rightarrow> string" where
  "nat_to_string n =
     (if n < 10 then [digit_char n] else nat_to_string (n div 10) @ [digit_char (n mod 10)])"

definition buildInCaveManifest ::
  "string \<Rightarrow> string \<Rightarrow> string \<Rightarrow> string \<Rightarrow> resource list \<Rightarrow> string" where
  \<open>buildInCaveManifest componentAddress accountAddress nftCollection nftId resources =
     (let manifest0 =
            ''\<newline>'' @
            ''CALL_METHOD\<newline>'' @
            ''  Address("'' @ accountAddress @ ''")\<newline>'' @
            ''  "create_proof_of_non_fungibles"\<newline>'' @
            ''  Address("'' @ nftCollection @ ''")\<newline>'' @
            ''  Array<NonFungibleLocalId>(NonFungibleLocalId("'' @ nftId @ ''"))\<newline>'' @
            '';\<newline>'' @
            ''\<newline>'' @
            ''POP_FROM_AUTH_ZONE\<newline>'' @
            ''  Proof("nft_proof")\<newline>'' @
            '';\<newline>'';
          manifest1 =
            foldl (\<lambda>manifest (index, resource).
                manifest @
                ''\<newline>'' @
                ''CALL_METHOD\<newline>'' @
                ''  Address("'' @ accountAddress @ ''")\<newline>'' @
                ''  "withdraw"\<newline>'' @
                ''  Address("'' @ resourceAddress resource @ ''")\<newline>'' @
                ''  Decimal("'' @ amount resource @ ''")\<newline>'' @
                '';\<newline>'' @
                ''\<newline>'' @
                ''TAKE_FROM_WORKTOP\<newline>'' @
                ''  Address("'' @ resourceAddress resource @ ''")\<newline>'' @
                ''  Decimal("'' @ amount resource @ ''")\<newline>'' @
                ''  Bucket("bucket_'' @ nat_to_string index @ ''")\<newline>'' @
                '';\<newline>'')
              manifest0 (enumerate 0 resources);
          bucketArray =
            array_join '', ''
              (map (\<lambda>(index, _). ''Bucket("bucket_'' @ nat_to_string index @ ''")'')
                 (enumerate 0 resources));
          manifest2 =
            manifest1 @
            ''\<newline>'' @
            ''CALL_METHOD\<newline>'' @
            ''  Address("'' @ componentAddress @ ''")\<newline>'' @
            ''  "in_cave"\<newline>'' @
            ''  Proof("nft_proof")\<newline>'' @
            ''  Array<Bucket>('' @ bucketArray @ '')\<newline>'' @
            '';\<newline>''
      in trim manifest2)\<close>

definition buildOutCaveManifest ::
  "string \<Rightarrow> string \<Rightarrow> string \<Rightarrow> string \<Rightarrow> resource list \<Rightarrow> string" where
  \<open>buildOutCaveManifest componentAddress accountAddress nftCollection nftId withdrawals =
     (let withdrawalTuples =
            array_join '', ''
              (map (\<lambda>w. ''Tuple(Address("'' @ resourceAddress w @ ''"), Decimal("'' @ amount w @ ''"))'')
                 withdrawals);
          manifest =
            ''\<newline>'' @
            ''CALL_METHOD\<newline>'' @
            ''  Address("'' @ accountAddress @ ''")\<newline>'' @
            ''  "create_proof_of_non_fungibles"\<newline>'' @
            ''  Address("'' @ nftCollection @ ''")\<newline>'' @
            ''  Array<NonFungibleLocalId>(NonFungibleLocalId("'' @ nftId @ ''"))\<newline>'' @
            '';\<newline>'' @
            ''\<newline>'' @
            ''POP_FROM_AUTH_ZONE\<newline>'' @
            ''  Proof("nft_proof")\<newline>'' @
            '';\<newline>'' @
            ''\<newline>'' @
            ''CALL_METHOD\<newline>'' @
            ''  Address("'' @ componentAddress @ ''")\<newline>'' @
            ''  "out_cave"\<newline>'' @
            ''  Proof("nft_proof")\<newline>'' @
            ''  Array<Tuple>('' @ withdrawalTuples @ '')\<newline>'' @
            '';\<newline>'' @
            ''\<newline>'' @
            ''CALL_METHOD\<newline>'' @
            ''  Address("'' @ accountAddress @ ''")\<newline>'' @
            ''  "deposit_batch"\<newline>'' @
            ''  Expression("ENTIRE_WORKTOP")\<newline>'' @
            '';\<newline>''
      in trim manifest)\<close>

definition buildLookCaveManifest ::
  "string \<Rightarrow> string \<Rightarrow> string \<Rightarrow> string \<Rightarrow> string list \<Rightarrow> string" where
  \<open>buildLookCaveManifest componentAddress accountAddress nftCollection nftId resourceAddresses =
     (let addressArray =
            array_join '', '' (map (\<lambda>addr. ''Address("'' @ addr @ ''")'') resourceAddresses);
          manifest =
            ''\<newline>'' @
            ''CALL_METHOD\<newline>'' @
            ''  Address("'' @ accountAddress @ ''")\<newline>'' @
            ''  "create_proof_of_non_fungibles"\<newline>'' @
            ''  Address("'' @ nftCollection @ ''")\<newline>'' @
            ''  Array<NonFungibleLocalId>(NonFungibleLocalId("'' @ nftId @ ''"))\<newline>'' @
            '';\<newline>'' @
            ''\<newline>'' @
            ''POP_FROM_AUTH_ZONE\<newline>'' @
            ''  Proof("nft_proof")\<newline>'' @
            '';\<newline>'' @
            ''\<newline>'' @
            ''CALL_METHOD\<newline>'' @
            ''  Address("'' @ componentAddress @ ''")\<newline>'' @
            ''  "query_balances"\<newline>'' @
            ''  Proof("nft_proof")\<newline>'' @
            ''  Array<Address>('' @ addressArray @ '')\<newline>'' @
            '';\<newline>''
      in trim manifest)\<close>

section \<open>Manifests as instruction lists\<close>

text \<open>
  The specification describes a manifest as a sequence of statements: method calls with
  typed arguments, a proof pop, and takes from the worktop into named buckets. The
  following types state that reading, and \<open>manifest_text\<close> writes such a sequence in the
  manifest grammar: the keyword, one argument per line indented by two spaces, a line
  with the terminator, and an empty line between two statements.
\<close>

datatype mvalue =
    MAddress string
  | MDecimal string
  | MProof string
  | MBucket string
  | MNonFungibleLocalId string
  | MExpression string
  | MTuple "mvalue list"
  | MArray string "mvalue list"

datatype instruction =
    CALL_METHOD string string "mvalue list"
  | POP_FROM_AUTH_ZONE string
  | TAKE_FROM_WORKTOP string string string

fun value_text :: "mvalue \<Rightarrow> string" where
  \<open>value_text (MAddress a) = ''Address("'' @ a @ ''")''\<close>
| \<open>value_text (MDecimal d) = ''Decimal("'' @ d @ ''")''\<close>
| \<open>value_text (MProof p) = ''Proof("'' @ p @ ''")''\<close>
| \<open>value_text (MBucket b) = ''Bucket("'' @ b @ ''")''\<close>
| \<open>value_text (MNonFungibleLocalId i) = ''NonFungibleLocalId("'' @ i @ ''")''\<close>
| \<open>value_text (MExpression e) = ''Expression("'' @ e @ ''")''\<close>
| \<open>value_text (MTuple xs) = ''Tuple('' @ array_join '', '' (map value_text xs) @ '')''\<close>
| \<open>value_text (MArray kind xs) =
     ''Array<'' @ kind @ ''>('' @ array_join '', '' (map value_text xs) @ '')''\<close>

definition argument_line :: "string \<Rightarrow> string" where
  "argument_line s = ''\<newline>  '' @ s"

fun instruction_text :: "instruction \<Rightarrow> string" where
  \<open>instruction_text (CALL_METHOD receiver method args) =
     ''CALL_METHOD'' @
     argument_line (value_text (MAddress receiver)) @
     argument_line (''"'' @ method @ ''"'') @
     concat (map (\<lambda>x. argument_line (value_text x)) args) @
     ''\<newline>;''\<close>
| \<open>instruction_text (POP_FROM_AUTH_ZONE p) =
     ''POP_FROM_AUTH_ZONE'' @ argument_line (value_text (MProof p)) @ ''\<newline>;''\<close>
| \<open>instruction_text (TAKE_FROM_WORKTOP res amt bucket) =
     ''TAKE_FROM_WORKTOP'' @
     argument_line (value_text (MAddress res)) @
     argument_line (value_text (MDecimal amt)) @
     argument_line (value_text (MBucket bucket)) @
     ''\<newline>;''\<close>

definition manifest_text :: "instruction list \<Rightarrow> string" where
  "manifest_text instrs = array_join ''\<newline>\<newline>'' (map instruction_text instrs)"

text \<open>The statements the specification names.\<close>

definition create_proof :: "string \<Rightarrow> string \<Rightarrow> string \<Rightarrow> instruction" where
  "create_proof account coll local_id =
     CALL_METHOD account ''create_proof_of_non_fungibles''
       [MAddress coll, MArray ''NonFungibleLocalId'' [MNonFungibleLocalId local_id]]"

definition pop_proof :: instruction where
  "pop_proof = POP_FROM_AUTH_ZONE ''nft_proof''"

definition bucket_name :: "nat \<Rightarrow> string" where
  "bucket_name i = ''bucket_'' @ nat_to_string i"

definition withdraw_and_take :: "string \<Rightarrow> nat \<times> resource \<Rightarrow> instruction list" where
  "withdraw_and_take account ir =
     [CALL_METHOD account ''withdraw''
        [MAddress (resourceAddress (snd ir)), MDecimal (amount (snd ir))],
      TAKE_FROM_WORKTOP (resourceAddress (snd ir)) (amount (snd ir)) (bucket_name (fst ir))]"

text \<open>A statement that withdraws, deposits or takes resources.\<close>

fun moves_resources :: "instruction \<Rightarrow> bool" where
  "moves_resources (CALL_METHOD receiver method args) =
     (method \<in> set [''withdraw'', ''deposit'', ''deposit_batch'', ''in_cave'', ''out_cave''])"
| "moves_resources (POP_FROM_AUTH_ZONE p) = False"
| "moves_resources (TAKE_FROM_WORKTOP res amt bucket) = True"

section \<open>Reading a manifest text\<close>

text \<open>
  The builders copy their arguments into the templates and escape nothing, so it is the
  text alone that decides which statements a manifest holds. \<open>read_manifest\<close> reads a
  text in the layout that \<open>manifest_text\<close> writes: a string literal ends at the next
  double quote, the kind of an array at the next \<^verbatim>\<open>>\<close>, the values of a tuple or an array
  are separated by a comma and a space, and two statements by an empty line. A text in
  another layout has no reading (\<open>None\<close>). The readers of nested values and of lists
  count down a bound on the number of steps; \<open>read_manifest\<close> starts them with a bound
  that the length of the text never exceeds.
\<close>

definition read_until :: "char \<Rightarrow> string \<Rightarrow> (string \<times> string) option" where
  "read_until c s =
     (case dropWhile (\<lambda>x. x \<noteq> c) s of
        [] \<Rightarrow> None
      | x # rest \<Rightarrow> Some (takeWhile (\<lambda>x. x \<noteq> c) s, rest))"

definition expect :: "string \<Rightarrow> string \<Rightarrow> string option" where
  "expect p s = (if startsWith s p then Some (drop (length p) s) else None)"

text \<open>
  A string between \<open>opener\<close>, which ends with the opening quote, and the closing quote
  followed by \<open>closer\<close>.
\<close>

definition quoted :: "string \<Rightarrow> string \<Rightarrow> string \<Rightarrow> (string \<times> string) option" where
  "quoted opener closer s =
     (case expect opener s of
        None \<Rightarrow> None
      | Some r \<Rightarrow>
          (case read_until (CHR 0x22) r of
             None \<Rightarrow> None
           | Some (a, r') \<Rightarrow> map_option (Pair a) (expect closer r')))"

definition literal_kinds :: "(string \<times> (string \<Rightarrow> mvalue)) list" where
  "literal_kinds =
     [(''Address'', MAddress), (''Decimal'', MDecimal), (''Proof'', MProof), (''Bucket'', MBucket),
      (''NonFungibleLocalId'', MNonFungibleLocalId), (''Expression'', MExpression)]"

fun read_literal :: "(string \<times> (string \<Rightarrow> mvalue)) list \<Rightarrow> string \<Rightarrow> (mvalue \<times> string) option" where
  \<open>read_literal [] s = None\<close>
| \<open>read_literal (kind # kinds) s =
     (if startsWith s (fst kind @ ''("'')
      then map_option (\<lambda>(a, r). (snd kind a, r)) (quoted (fst kind @ ''("'') '')'' s)
      else read_literal kinds s)\<close>

fun read_value :: "nat \<Rightarrow> string \<Rightarrow> (mvalue \<times> string) option"
  and read_values :: "nat \<Rightarrow> string \<Rightarrow> (mvalue list \<times> string) option"
  and read_more :: "nat \<Rightarrow> string \<Rightarrow> (mvalue list \<times> string) option" where
  "read_value 0 s = None"
| "read_value (Suc n) s =
     (if startsWith s ''Tuple('' then
        map_option (\<lambda>(xs, r). (MTuple xs, r)) (read_values n (drop 6 s))
      else if startsWith s ''Array<'' then
        (case read_until CHR ''>'' (drop 6 s) of
           None \<Rightarrow> None
         | Some (kind, r) \<Rightarrow>
             (case expect ''('' r of
                None \<Rightarrow> None
              | Some r' \<Rightarrow> map_option (\<lambda>(xs, r''). (MArray kind xs, r'')) (read_values n r')))
      else read_literal literal_kinds s)"
| "read_values 0 s = None"
| "read_values (Suc n) s =
     (if startsWith s '')'' then Some ([], drop 1 s) else read_more n s)"
| "read_more 0 s = None"
| "read_more (Suc n) s =
     (case read_value n s of
        None \<Rightarrow> None
      | Some (x, r) \<Rightarrow>
          if startsWith r '')'' then Some ([x], drop 1 r)
          else (case expect '', '' r of
                  None \<Rightarrow> None
                | Some r' \<Rightarrow> map_option (\<lambda>(xs, r''). (x # xs, r'')) (read_more n r')))"

text \<open>The argument lines of a method call after the method name, up to the terminator.\<close>

fun read_arguments :: "nat \<Rightarrow> string \<Rightarrow> (mvalue list \<times> string) option" where
  "read_arguments 0 s = None"
| "read_arguments (Suc n) s =
     (if startsWith s ''\<newline>;'' then Some ([], drop 2 s)
      else (case expect ''\<newline>  '' s of
              None \<Rightarrow> None
            | Some r \<Rightarrow>
                (case read_value n r of
                   None \<Rightarrow> None
                 | Some (x, r') \<Rightarrow> map_option (\<lambda>(xs, r''). (x # xs, r'')) (read_arguments n r'))))"

definition read_instruction :: "nat \<Rightarrow> string \<Rightarrow> (instruction \<times> string) option" where
  \<open>read_instruction n s =
     (if startsWith s ''CALL_METHOD'' then
        (case quoted ''CALL_METHOD\<newline>  Address("'' '')\<newline>  "'' s of
           None \<Rightarrow> None
         | Some (receiver, r) \<Rightarrow>
             (case read_until (CHR 0x22) r of
                None \<Rightarrow> None
              | Some (method, r') \<Rightarrow>
                  map_option (\<lambda>(args, r''). (CALL_METHOD receiver method args, r''))
                    (read_arguments n r')))
      else if startsWith s ''POP_FROM_AUTH_ZONE'' then
        map_option (\<lambda>(p, r). (POP_FROM_AUTH_ZONE p, r))
          (quoted ''POP_FROM_AUTH_ZONE\<newline>  Proof("'' '')\<newline>;'' s)
      else if startsWith s ''TAKE_FROM_WORKTOP'' then
        (case quoted ''TAKE_FROM_WORKTOP\<newline>  Address("'' '')'' s of
           None \<Rightarrow> None
         | Some (res, r) \<Rightarrow>
             (case quoted ''\<newline>  Decimal("'' '')'' r of
                None \<Rightarrow> None
              | Some (amt, r') \<Rightarrow>
                  map_option (\<lambda>(bucket, r''). (TAKE_FROM_WORKTOP res amt bucket, r''))
                    (quoted ''\<newline>  Bucket("'' '')\<newline>;'' r')))
      else None)\<close>

fun read_statements :: "nat \<Rightarrow> string \<Rightarrow> instruction list option" where
  "read_statements 0 s = None"
| "read_statements (Suc n) s =
     (case read_instruction n s of
        None \<Rightarrow> None
      | Some (i, r) \<Rightarrow>
          if r = [] then Some [i]
          else (case expect ''\<newline>\<newline>'' r of
                  None \<Rightarrow> None
                | Some r' \<Rightarrow> map_option ((#) i) (read_statements n r')))"

definition read_manifest :: "string \<Rightarrow> instruction list option" where
  "read_manifest s = (if s = [] then Some [] else read_statements (Suc (length s)) s)"

text \<open>
  The strings that a template takes without harm: \<open>plain\<close> strings hold no double quote.
  A statement list is plain when all its strings are, and the kinds of its arrays hold
  no \<^verbatim>\<open>>\<close>.
\<close>

definition plain :: "string \<Rightarrow> bool" where
  "plain s = (CHR 0x22 \<notin> set s)"

fun plain_value :: "mvalue \<Rightarrow> bool" where
  "plain_value (MAddress a) = plain a"
| "plain_value (MDecimal d) = plain d"
| "plain_value (MProof p) = plain p"
| "plain_value (MBucket b) = plain b"
| "plain_value (MNonFungibleLocalId i) = plain i"
| "plain_value (MExpression e) = plain e"
| "plain_value (MTuple xs) = list_all plain_value xs"
| "plain_value (MArray kind xs) = (CHR ''>'' \<notin> set kind \<and> list_all plain_value xs)"

fun plain_instruction :: "instruction \<Rightarrow> bool" where
  "plain_instruction (CALL_METHOD receiver method args) =
     (plain receiver \<and> plain method \<and> list_all plain_value args)"
| "plain_instruction (POP_FROM_AUTH_ZONE p) = plain p"
| "plain_instruction (TAKE_FROM_WORKTOP res amt bucket) = (plain res \<and> plain amt \<and> plain bucket)"

text \<open>The buckets that the takes of a statement list fill, in order.\<close>

fun taken_bucket :: "instruction \<Rightarrow> string list" where
  "taken_bucket (TAKE_FROM_WORKTOP res amt bucket) = [bucket]"
| "taken_bucket (CALL_METHOD receiver method args) = []"
| "taken_bucket (POP_FROM_AUTH_ZONE p) = []"

definition taken_buckets :: "instruction list \<Rightarrow> string list" where
  "taken_buckets instrs = concat (map taken_bucket instrs)"

section \<open>The controller's guard\<close>

text \<open>
  \<^verbatim>\<open>handleTransaction\<close> and \<^verbatim>\<open>handleLookup\<close> of \<^verbatim>\<open>main.js\<close>, up to the manifest they hand
  to the wallet or to the preview. \<open>NotBuilt\<close> is the early \<^verbatim>\<open>return\<close>; \<open>InvalidMode\<close> is
  the \<^verbatim>\<open>Error\<close> thrown for a mode other than \<^verbatim>\<open>in\<close> and \<^verbatim>\<open>out\<close>. The current account is
  given by its address, \<open>None\<close> when no wallet is connected.
\<close>

record nft_ref =
  collection :: string
  nft_id :: string

record 'a modal_data =
  mode :: string
  nft :: "nft_ref option"
  resources :: "'a resource_scheme list"




declare nat_to_string.simps [simp del]

declare collect_keys.simps [simp del]

section \<open>JSON round trips\<close>

text \<open>
  Parsing the text written for a serializable value gives the value back, and every
  parsed value is serializable.
\<close>

lemma foldl_update_append:
  "distinct (map fst (acc @ kvs)) \<Longrightarrow>
   foldl (\<lambda>acc kv. AList.update (fst kv) (snd kv) acc) acc kvs = acc @ kvs"
proof (induction kvs arbitrary: acc)
  case Nil
  then show ?case by simp
next
  case (Cons kv kvs)
  have fresh: "fst kv \<notin> fst ` set acc" using Cons.prems by auto
  have upd: "AList.update (fst kv) (snd kv) acc = acc @ [kv]"
    using fresh by (induction acc) auto
  have "distinct (map fst ((acc @ [kv]) @ kvs))" using Cons.prems by simp
  from Cons.IH [OF this] show ?case by (simp add: upd)
qed

lemma object_of_members_distinct:
  "distinct (map fst kvs) \<Longrightarrow> object_of_members kvs = kvs"
  using foldl_update_append [of "[]" kvs] by (simp add: object_of_members_def)

lemma distinct_foldl_update:
  "distinct (map fst acc) \<Longrightarrow>
   distinct (map fst (foldl (\<lambda>acc kv. AList.update (fst kv) (snd kv) acc) acc kvs))"
  by (induction kvs arbitrary: acc) (simp_all add: distinct_update)

lemma distinct_object_of_members: "distinct (map fst (object_of_members kvs))"
  using distinct_foldl_update [of "[]" kvs] by (simp add: object_of_members_def)

lemma set_foldl_update:
  "snd ` set (foldl (\<lambda>acc kv. AList.update (fst kv) (snd kv) acc) acc kvs)
     \<subseteq> snd ` set acc \<union> snd ` set kvs"
proof (induction kvs arbitrary: acc)
  case Nil
  then show ?case by simp
next
  case (Cons kv kvs)
  have "snd ` set (AList.update (fst kv) (snd kv) acc) \<subseteq> insert (snd kv) (snd ` set acc)"
    by (induction acc) auto
  with Cons.IH [of "AList.update (fst kv) (snd kv) acc"] show ?case by auto
qed

lemma values_object_of_members: "snd ` set (object_of_members kvs) \<subseteq> snd ` set kvs"
  using set_foldl_update [of "[]" kvs] by (simp add: object_of_members_def)

lemma serializable_parse: "serializable (JSON_parse j)"
proof (induction j)
  case (JArr xs)
  then show ?case by (simp add: list_all_iff)
next
  case (JObj kvs)
  have "\<And>v. v \<in> snd ` set (map (\<lambda>kv. (fst kv, JSON_parse (snd kv))) kvs) \<Longrightarrow> serializable v"
    using JObj by (auto simp: snds.simps)
  then have "\<And>kv. kv \<in> set (object_of_members (map (\<lambda>kv. (fst kv, JSON_parse (snd kv))) kvs))
        \<Longrightarrow> serializable (snd kv)"
    using values_object_of_members by blast
  then show ?case by (simp add: list_all_iff distinct_object_of_members)
qed simp_all

lemma stringify_parse_roundtrip:
  "serializable v \<Longrightarrow> \<exists>j. JSON_stringify v = Some j \<and> JSON_parse j = v"
proof (induction v rule: JSON_stringify.induct)
  case (9 xs)
  have each: "\<And>x. x \<in> set xs \<Longrightarrow> \<exists>j. JSON_stringify x = Some j \<and> JSON_parse j = x"
    using 9 by (simp add: list_all_iff)
  have "map JSON_parse (map (\<lambda>x. case JSON_stringify x of None \<Rightarrow> JNull | Some j \<Rightarrow> j) xs) = xs"
    using each by (induction xs) fastforce+
  then show ?case by simp
next
  case (10 kvs)
  have each: "\<And>kv. kv \<in> set kvs \<Longrightarrow> \<exists>j. JSON_stringify (snd kv) = Some j \<and> JSON_parse j = snd kv"
    using 10 by (simp add: list_all_iff)
  have m: "map (\<lambda>kv. (fst kv, JSON_parse (snd kv)))
         (concat (map (\<lambda>kv. case JSON_stringify (snd kv) of None \<Rightarrow> [] | Some j \<Rightarrow> [(fst kv, j)]) kvs))
        = kvs"
    using each by (induction kvs) fastforce+
  have "distinct (map fst kvs)" using 10 by simp
  then show ?case by (simp add: m object_of_members_distinct)
qed simp_all

section \<open>Expiry of cache entries\<close>

lemma getItem_removeItem:
  "getItem (removeItem k ls) k' = (if k' = k then None else getItem ls k')"
  by (simp add: getItem_def removeItem_def delete_conv)

text \<open>
  Claim C1, as the code has it. An entry with a finite expiry \<open>e\<close> is returned at every
  query time up to and including \<open>e\<close>, and is expired only strictly after \<open>e\<close>: both
  stores test \<^verbatim>\<open>Date.now() > expiry\<close>. A read that finds the entry expired returns
  \<^verbatim>\<open>null\<close> and removes the entry from the store. For the persistent store the entry is
  the JSON text under the namespaced key, parsed to an object with the value \<open>v\<close> and the
  expiry \<open>e\<close>; for the session store it is the item of the map.
\<close>

theorem get_expires_after_expiry:
  assumes stored: "getItem ls (CACHE_PREFIX @ key) = Some (JsonText j)"
      and item: "destructure_item (JSON_parse j) = Inr (v, Num (Finite e))"
      and sess: "data key = Some \<lparr>item_value = v', item_expiry = Finite e'\<rparr>"
  shows "cache_get now key ls =
           (if now \<le> e then Some (v, ls)
            else Some (Null, removeItem (CACHE_PREFIX @ key) ls))
       \<and> getItem (removeItem (CACHE_PREFIX @ key) ls) (CACHE_PREFIX @ key) = None
       \<and> sessionCache_get now key data =
           (if now \<le> e' then (v', data) else (Null, data(key := None)))"
proof -
  have persistent: "cache_get now key ls =
           (if now \<le> e then Some (v, ls)
            else Some (Null, removeItem (CACHE_PREFIX @ key) ls))"
    using stored item by (simp add: cache_get_def not_le)
  have removed: "getItem (removeItem (CACHE_PREFIX @ key) ls) (CACHE_PREFIX @ key) = None"
    by (simp add: getItem_removeItem)
  have session: "sessionCache_get now key data =
           (if now \<le> e' then (v', data) else (Null, data(key := None)))"
    using sess by (simp add: sessionCache_get_def not_le)
  from persistent removed session show ?thesis by simp
qed

theorem get_expires_after_expiry_witness:
  "cache_get 100 ''k'' (cache_set 0 ''k'' (Str ''v'') (Finite 100) \<lparr>entries = [], full = False\<rparr>)
     = Some (Str ''v'',
         cache_set 0 ''k'' (Str ''v'') (Finite 100) \<lparr>entries = [], full = False\<rparr>)
   \<and> cache_get 101 ''k'' (cache_set 0 ''k'' (Str ''v'') (Finite 100) \<lparr>entries = [], full = False\<rparr>)
     = Some (Null, \<lparr>entries = [], full = False\<rparr>)
   \<and> fst (sessionCache_get 100 ''k'' (sessionCache_set 0 ''k'' (Str ''v'') (Finite 100) Map.empty))
     = Str ''v''
   \<and> fst (sessionCache_get 101 ''k'' (sessionCache_set 0 ''k'' (Str ''v'') (Finite 100) Map.empty)) = Null
   \<and> snd (sessionCache_get 101 ''k'' (sessionCache_set 0 ''k'' (Str ''v'') (Finite 100) Map.empty)) ''k''
     = None"
proof -
  let ?ls = "cache_set 0 ''k'' (Str ''v'') (Finite 100) \<lparr>entries = [], full = False\<rparr>"
  let ?j = "JObj [(''value'', JStr ''v''), (''expiry'', JNum 100)]"
  let ?data = "sessionCache_set 0 ''k'' (Str ''v'') (Finite 100) Map.empty"
  have stored: "getItem ?ls (CACHE_PREFIX @ ''k'') = Some (JsonText ?j)"
    by (simp add: cache_set_def setItem_def getItem_def stringified_def)
  have item: "destructure_item (JSON_parse ?j) = Inr (Str ''v'', Num (Finite 100))"
    by (simp add: object_of_members_def own_property_def)
  have sess: "?data ''k'' = Some \<lparr>item_value = Str ''v'', item_expiry = Finite 100\<rparr>"
    by (simp add: sessionCache_set_def)
  have gone: "removeItem (CACHE_PREFIX @ ''k'') ?ls = \<lparr>entries = [], full = False\<rparr>"
    by (simp add: cache_set_def setItem_def removeItem_def)
  from get_expires_after_expiry [where key = "''k''" and data = ?data and now = 100, OF stored item sess]
    get_expires_after_expiry [where key = "''k''" and data = ?data and now = 101, OF stored item sess]
    gone
  show ?thesis by simp
qed

text \<open>
  Claim C1 as stated fails at the boundary: an entry set at time 0 with a TTL of 100 is
  still returned, by both stores, at the query time 100, which is its expiry timestamp.
\<close>

theorem get_at_expiry_counterexample:
  "cache_get 100 ''k'' (cache_set 0 ''k'' (Str ''v'') (Finite 100) \<lparr>entries = [], full = False\<rparr>)
     = Some (Str ''v'', cache_set 0 ''k'' (Str ''v'') (Finite 100) \<lparr>entries = [], full = False\<rparr>)
   \<and> fst (sessionCache_get 100 ''k'' (sessionCache_set 0 ''k'' (Str ''v'') (Finite 100) Map.empty)) = Str ''v''"
  by (simp add: cache_get_def cache_set_def setItem_def getItem_def CACHE_PREFIX_def
      own_property_def object_of_members_def sessionCache_get_def sessionCache_set_def stringified_def)

text \<open>
  Claim C2. In the session store an entry with the TTL \<^verbatim>\<open>Infinity\<close> is returned at every
  later time. In the persistent store it is not: \<^verbatim>\<open>JSON.stringify\<close> writes the expiry
  \<^verbatim>\<open>Infinity\<close> as \<^verbatim>\<open>null\<close>, the test \<^verbatim>\<open>expiry !== Infinity\<close> then holds for the parsed
  \<^verbatim>\<open>null\<close>, and \<^verbatim>\<open>Date.now() > null\<close> compares with 0. The entry set at time 1000 is
  gone at time 2000.
\<close>

theorem infinite_ttl_persistent_entry_expires:
  "cache_get 2000 ''k'' (cache_set 1000 ''k'' (Str ''v'') PosInfinity \<lparr>entries = [], full = False\<rparr>)
     = Some (Null, \<lparr>entries = [], full = False\<rparr>)"
  by (simp add: cache_get_def cache_set_def setItem_def getItem_def CACHE_PREFIX_def
      own_property_def object_of_members_def removeItem_def stringified_def)

lemma infinite_ttl_session_never_expires:
  "sessionCache_get later key (sessionCache_set now key v PosInfinity data)
     = (v, sessionCache_set now key v PosInfinity data)"
  by (simp add: sessionCache_get_def sessionCache_set_def)

lemma cache_set_stored:
  assumes "\<not> full ls" "JSON_stringify v = Some jv"
  shows "getItem (cache_set now key v ttl ls) (CACHE_PREFIX @ key)
           = Some (JsonText (JObj [(''value'', jv), (''expiry'',
                (case plus_now now ttl of Finite e \<Rightarrow> JNum e | _ \<Rightarrow> JNull))]))"
  using assms
  by (cases ttl) (simp_all add: cache_set_def setItem_def getItem_def update_conv' stringified_def)

lemma persistent_infinite_ttl_lost:
  assumes "\<not> full ls" "JSON_stringify v = Some jv" "0 < later"
  shows "cache_get later key (cache_set now key v PosInfinity ls)
           = Some (Null, removeItem (CACHE_PREFIX @ key) (cache_set now key v PosInfinity ls))"
  using assms(3) cache_set_stored [OF assms(1,2), of now key PosInfinity]
  by (simp add: cache_get_def object_of_members_def own_property_def)

section \<open>Set followed by get\<close>

lemma set_then_get_within_ttl:
  assumes ser: "serializable v" and room: "\<not> full ls" and soon: "now' \<le> now + d"
  shows "cache_get now' key (cache_set now key v (Finite d) ls)
           = Some (v, cache_set now key v (Finite d) ls)"
proof -
  from stringify_parse_roundtrip [OF ser]
  obtain jv where jv: "JSON_stringify v = Some jv" "JSON_parse jv = v" by blast
  have stored: "getItem (cache_set now key v (Finite d) ls) (CACHE_PREFIX @ key)
           = Some (JsonText (JObj [(''value'', jv), (''expiry'', JNum (now + d))]))"
    using cache_set_stored [OF room jv(1), of now key "Finite d"] by simp
  show ?thesis
    using soon by (simp add: cache_get_def stored jv(2) object_of_members_def own_property_def)
qed

lemma session_set_then_get_within_ttl:
  "now' \<le> now + d \<Longrightarrow>
   sessionCache_get now' key (sessionCache_set now key w (Finite d) data)
     = (w, sessionCache_set now key w (Finite d) data)"
  by (simp add: sessionCache_get_def sessionCache_set_def)

text \<open>
  Claim C6, as the code has it. For a TTL \<open>d > 0\<close>, a get that follows the set at once
  (at the same reading \<open>now\<close> of the clock) returns exactly the value set: in the session
  store for every value \<open>w\<close>, for the finite TTL and for the TTL \<^verbatim>\<open>Infinity\<close>; in the
  persistent store for every serializable value \<open>v\<close> and the finite TTL, when
  \<^verbatim>\<open>localStorage\<close> accepts the write. By the two lemmas above the same holds at every
  later time up to the expiry.
\<close>

theorem set_then_get_returns_value:
  assumes ser: "serializable v" and pos: "0 < d" and room: "\<not> full ls"
  shows "cache_get now key (cache_set now key v (Finite d) ls)
           = Some (v, cache_set now key v (Finite d) ls)
       \<and> sessionCache_get now key (sessionCache_set now key w (Finite d) data)
           = (w, sessionCache_set now key w (Finite d) data)
       \<and> sessionCache_get now key (sessionCache_set now key w PosInfinity data)
           = (w, sessionCache_set now key w PosInfinity data)"
proof -
  from pos have soon: "now \<le> now + d" by simp
  have persistent: "cache_get now key (cache_set now key v (Finite d) ls)
           = Some (v, cache_set now key v (Finite d) ls)"
    using ser room soon by (rule set_then_get_within_ttl)
  have session: "sessionCache_get now key (sessionCache_set now key w (Finite d) data)
           = (w, sessionCache_set now key w (Finite d) data)"
    using soon by (rule session_set_then_get_within_ttl)
  have forever: "sessionCache_get now key (sessionCache_set now key w PosInfinity data)
           = (w, sessionCache_set now key w PosInfinity data)"
    by (rule infinite_ttl_session_never_expires)
  from persistent session forever show ?thesis by simp
qed

theorem set_then_get_returns_value_witness:
  "cache_get 1000 ''k'' (cache_set 1000 ''k'' (Arr [Str ''v'', Null]) (Finite 60000)
       \<lparr>entries = [], full = False\<rparr>)
     = Some (Arr [Str ''v'', Null],
         cache_set 1000 ''k'' (Arr [Str ''v'', Null]) (Finite 60000) \<lparr>entries = [], full = False\<rparr>)
   \<and> fst (sessionCache_get 1000 ''k'' (sessionCache_set 1000 ''k'' (Str ''v'') (Finite 60000) Map.empty))
       = Str ''v''
   \<and> fst (sessionCache_get 1000 ''k'' (sessionCache_set 1000 ''k'' (Str ''v'') PosInfinity Map.empty))
       = Str ''v''"
  using set_then_get_returns_value [where v = "Arr [Str ''v'', Null]" and d = 60000
      and ls = "\<lparr>entries = [], full = False\<rparr>" and now = 1000 and key = "''k''"
      and w = "Str ''v''" and data = Map.empty]
  by simp

text \<open>
  Claim C6 as stated fails in the persistent store at two inputs. When the browser
  refuses the write, \<^verbatim>\<open>set\<close> catches the exception and stores nothing, so the get
  that follows returns \<^verbatim>\<open>null\<close>. And with the positive TTL \<^verbatim>\<open>Infinity\<close> the entry is
  expired at once, as for claim C2.
\<close>

theorem set_then_get_counterexample:
  "cache_get 1000 ''k'' (cache_set 1000 ''k'' (Str ''v'') (Finite 60000)
       \<lparr>entries = [], full = True\<rparr>)
     = Some (Null, \<lparr>entries = [], full = True\<rparr>)
   \<and> cache_get 1000 ''k'' (cache_set 1000 ''k'' (Str ''v'') PosInfinity
       \<lparr>entries = [], full = False\<rparr>)
     = Some (Null, \<lparr>entries = [], full = False\<rparr>)"
  by (simp add: cache_get_def cache_set_def setItem_def getItem_def CACHE_PREFIX_def
      own_property_def object_of_members_def removeItem_def stringified_def)

section \<open>Clearing the persistent cache\<close>

lemma collect_keys_eq:
  "collect_keys i keys ls =
     keys @ filter (\<lambda>k. k \<noteq> [] \<and> startsWith k CACHE_PREFIX) (map fst (drop i (entries ls)))"
proof (induction i keys ls rule: collect_keys.induct)
  case (1 i keys ls)
  show ?case
  proof (cases "i < storage_length ls")
    case True
    then have lt: "i < length (entries ls)" by (simp add: storage_length_def)
    have split: "drop i (entries ls) = entries ls ! i # drop (Suc i) (entries ls)"
      using lt by (simp add: Cons_nth_drop_Suc)
    have key: "storage_key ls i = Some (fst (entries ls ! i))"
      using lt by (simp add: storage_key_def)
    have "collect_keys i keys ls =
        collect_keys (i + 1)
          (case storage_key ls i of
             None \<Rightarrow> keys
           | Some key \<Rightarrow> if key \<noteq> [] \<and> startsWith key CACHE_PREFIX then keys @ [key] else keys)
          ls"
      using True by (subst collect_keys.simps) simp
    also have "\<dots> = (case storage_key ls i of
             None \<Rightarrow> keys
           | Some key \<Rightarrow> if key \<noteq> [] \<and> startsWith key CACHE_PREFIX then keys @ [key] else keys)
          @ filter (\<lambda>k. k \<noteq> [] \<and> startsWith k CACHE_PREFIX)
              (map fst (drop (i + 1) (entries ls)))"
      by (rule "1.IH" [OF True])
    also have "\<dots> = keys @ filter (\<lambda>k. k \<noteq> [] \<and> startsWith k CACHE_PREFIX)
                        (map fst (drop i (entries ls)))"
      by (simp add: key split)
    finally show ?thesis .
  next
    case False
    then show ?thesis
      by (subst collect_keys.simps) (simp add: storage_length_def)
  qed
qed

lemma entries_removeItem:
  "entries (removeItem k ls) = filter (\<lambda>kv. fst kv \<noteq> k) (entries ls)"
proof -
  have "filter (\<lambda>kv. k \<noteq> fst kv) (entries ls) = filter (\<lambda>kv. fst kv \<noteq> k) (entries ls)"
    by (rule filter_cong) auto
  then show ?thesis
    by (simp add: removeItem_def AList.delete_eq case_prod_unfold)
qed

lemma foldl_removeItem:
  "entries (foldl (\<lambda>st k. removeItem k st) ls ks) = filter (\<lambda>kv. fst kv \<notin> set ks) (entries ls)
   \<and> full (foldl (\<lambda>st k. removeItem k st) ls ks) = full ls"
proof (induction ks arbitrary: ls)
  case Nil
  then show ?case by simp
next
  case (Cons k ks)
  have "filter (\<lambda>kv. fst kv \<notin> set ks) (filter (\<lambda>kv. fst kv \<noteq> k) (entries ls))
          = filter (\<lambda>kv. fst kv \<notin> set (k # ks)) (entries ls)"
    by (auto intro: filter_cong)
  with Cons [of "removeItem k ls"] show ?case
    by (simp add: entries_removeItem) (simp add: removeItem_def)
qed

lemma startsWith_prefix_nonempty: "startsWith k CACHE_PREFIX \<Longrightarrow> k \<noteq> []"
  by (auto simp: startsWith_def CACHE_PREFIX_def)

lemma entries_clearAll:
  "entries (cache_clearAll ls) = filter (\<lambda>kv. \<not> startsWith (fst kv) CACHE_PREFIX) (entries ls)"
proof -
  have "entries (cache_clearAll ls) =
          filter (\<lambda>kv. fst kv \<notin> set (filter (\<lambda>k. k \<noteq> [] \<and> startsWith k CACHE_PREFIX)
                                             (map fst (entries ls)))) (entries ls)"
    by (simp add: cache_clearAll_def collect_keys_eq foldl_removeItem)
  also have "\<dots> = filter (\<lambda>kv. \<not> startsWith (fst kv) CACHE_PREFIX) (entries ls)"
    by (rule filter_cong) (auto dest: startsWith_prefix_nonempty)
  finally show ?thesis .
qed

lemma map_of_filter_key:
  "map_of (filter (\<lambda>kv. Q (fst kv)) xs) k = (if Q k then map_of xs k else None)"
  by (induction xs) auto

text \<open>
  Claim C8. \<^verbatim>\<open>cache.clearAll\<close> removes exactly the entries whose key starts with the
  prefix: the storage afterwards is the old one without them, in the old order; a key
  under the prefix reads as absent and every other key reads as before.
\<close>

theorem clearAll_removes_exactly_prefixed:
  "entries (cache_clearAll ls) = filter (\<lambda>kv. \<not> startsWith (fst kv) CACHE_PREFIX) (entries ls)
   \<and> getItem (cache_clearAll ls) k = (if startsWith k CACHE_PREFIX then None else getItem ls k)
   \<and> full (cache_clearAll ls) = full ls"
proof -
  have e: "entries (cache_clearAll ls) = filter (\<lambda>kv. \<not> startsWith (fst kv) CACHE_PREFIX) (entries ls)"
    by (rule entries_clearAll)
  have g: "getItem (cache_clearAll ls) k = (if startsWith k CACHE_PREFIX then None else getItem ls k)"
    unfolding getItem_def e
    using map_of_filter_key [of "\<lambda>k. \<not> startsWith k CACHE_PREFIX" "entries ls" k] by simp
  have f: "full (cache_clearAll ls) = full ls"
    by (simp add: cache_clearAll_def foldl_removeItem)
  from e g f show ?thesis by simp
qed

section \<open>The registry\<close>

lemma serializable_getAll: "serializable (permanentResourceCache_getAll ls)"
  by (simp add: permanentResourceCache_getAll_def serializable_parse split: option.splits stored.splits)

lemma set_insert_index: "set (insert_index n new kvs) = insert new (set kvs)"
  by (induction kvs) (auto split: option.splits)

lemma keys_insert_index: "fst ` set (insert_index n new kvs) = insert (fst new) (fst ` set kvs)"
  by (simp add: set_insert_index)

lemma distinct_insert_index:
  "fst new \<notin> set (map fst kvs) \<Longrightarrow> distinct (map fst kvs) \<Longrightarrow>
   distinct (map fst (insert_index n new kvs))"
proof (induction kvs)
  case Nil
  then show ?case by simp
next
  case (Cons p ps)
  have "fst p \<notin> fst ` set (insert_index n new ps)"
    using Cons.prems unfolding keys_insert_index by auto
  with Cons show ?case by (auto split: option.splits)
qed

lemma map_of_insert_index:
  "map_of kvs k = None \<Longrightarrow>
   map_of (insert_index n (k, v) kvs) k' = (if k' = k then Some v else map_of kvs k')"
  by (induction kvs) (auto split: option.splits if_splits)

lemma map_of_define_property:
  "map_of (define_property k v kvs) k' = (if k' = k then Some v else map_of kvs k')"
proof (cases "map_of kvs k")
  case None
  then show ?thesis
    by (auto simp: define_property_def map_of_insert_index map_add_def split: option.splits)
next
  case (Some w)
  then show ?thesis
    by (simp add: define_property_def update_conv')
qed

lemma distinct_define_property:
  "distinct (map fst kvs) \<Longrightarrow> distinct (map fst (define_property k v kvs))"
proof (cases "map_of kvs k")
  case None
  assume keys: "distinct (map fst kvs)"
  from None have fresh: "k \<notin> set (map fst kvs)" by (simp add: map_of_eq_None_iff)
  then have "distinct (map fst (insert_index n (k, v) kvs))" for n
    using keys by (intro distinct_insert_index) simp_all
  with None keys fresh show ?thesis
    by (simp add: define_property_def split: option.splits)
next
  case (Some w)
  assume "distinct (map fst kvs)"
  with Some show ?thesis by (simp add: define_property_def distinct_update)
qed

lemma set_define_property: "set (define_property k v kvs) \<subseteq> insert (k, v) (set kvs)"
proof -
  have "set (AList.update k v kvs) \<subseteq> insert (k, v) (set kvs)"
    by (induction kvs) auto
  then show ?thesis
    by (auto simp: define_property_def set_insert_index split: option.splits)
qed

lemma map_of_put_property:
  "map_of (put_property k v kvs) k'
     = (if k' = k \<and> \<not> (k = ''__proto__'' \<and> map_of kvs k = None) then Some v else map_of kvs k')"
  by (auto simp: put_property_def map_of_define_property)

lemma serializable_put_property:
  assumes "serializable (Obj kvs)" "serializable v"
  shows "serializable (Obj (put_property k v kvs))"
proof (cases "k = ''__proto__'' \<and> map_of kvs k = None")
  case True
  then have "put_property k v kvs = kvs"
    unfolding put_property_def by (rule if_P)
  with assms(1) show ?thesis by simp
next
  case False
  then have "put_property k v kvs = define_property k v kvs"
    by (auto simp: put_property_def)
  with assms set_define_property [of k v kvs] show ?thesis
    by (auto simp: list_all_iff distinct_define_property)
qed

lemma assign_entry:
  "assign_property (Obj kvs) k (registry_entry addr icon)
     = Some (Inr (Obj (put_property k (registry_entry addr icon) kvs)))"
  by (simp add: registry_entry_def)

lemma serializable_entry_falsy: "\<not> truthy icon \<Longrightarrow> serializable (registry_entry addr icon)"
  by (simp add: registry_entry_def js_or_def)

lemma getAll_write_registry:
  assumes "\<not> full ls" "serializable r"
  shows "permanentResourceCache_getAll (write_registry r ls) = r \<and> full (write_registry r ls) = full ls"
proof -
  from stringify_parse_roundtrip [OF assms(2)]
  obtain j where j: "JSON_stringify r = Some j" "JSON_parse j = r" by blast
  show ?thesis
    using assms(1) j
    by (simp add: write_registry_def setItem_def stringified_def permanentResourceCache_getAll_def getItem_def
        update_conv')
qed

lemma permanent_add_result:
  assumes room: "\<not> full ls" and map: "permanentResourceCache_getAll ls = Obj kvs"
      and entry: "serializable (registry_entry addr icon)"
  shows "\<exists>ls'. permanentResourceCache_add t addr icon ls = Some ls' \<and> \<not> full ls'
           \<and> permanentResourceCache_getAll ls' = Obj (put_property t (registry_entry addr icon) kvs)"
proof -
  have "serializable (Obj kvs)" using serializable_getAll [of ls] map by simp
  then have ser: "serializable (Obj (put_property t (registry_entry addr icon) kvs))"
    using entry by (rule serializable_put_property)
  from getAll_write_registry [OF room ser] room show ?thesis
    by (simp add: permanentResourceCache_add_def map assign_entry del: assign_property.simps)
qed

lemma assign_all_Obj: "assign_all (Obj kvs) rs = Some (Inr (Obj (put_all kvs rs)))"
  by (induction rs arbitrary: kvs) (simp_all add: put_all_def assign_entry del: assign_property.simps)

lemma serializable_put_all:
  "serializable (Obj kvs) \<Longrightarrow>
   list_all (\<lambda>r. serializable (registry_entry (address r) (iconUrl r))) rs \<Longrightarrow>
   serializable (Obj (put_all kvs rs))"
proof (induction rs arbitrary: kvs)
  case Nil
  then show ?case by (simp add: put_all_def)
next
  case (Cons r rs)
  from Cons.prems have "serializable (Obj (put_property (ticker r) (registry_entry (address r) (iconUrl r)) kvs))"
    by (intro serializable_put_property) simp_all
  from Cons.IH [OF this] Cons.prems(2) show ?case by (simp add: put_all_def)
qed

lemma permanent_addMultiple_result:
  assumes room: "\<not> full ls" and map: "permanentResourceCache_getAll ls = Obj kvs"
      and icons: "list_all (\<lambda>r. serializable (registry_entry (address r) (iconUrl r))) rs"
  shows "\<exists>ls'. permanentResourceCache_addMultiple rs ls = Some ls' \<and> \<not> full ls'
           \<and> permanentResourceCache_getAll ls' = Obj (put_all kvs rs)"
proof -
  have "serializable (Obj kvs)" using serializable_getAll [of ls] map by simp
  then have ser: "serializable (Obj (put_all kvs rs))"
    using icons by (rule serializable_put_all)
  from getAll_write_registry [OF room ser] room show ?thesis
    by (simp add: permanentResourceCache_addMultiple_def map assign_all_Obj)
qed

lemma permanent_get_own:
  "permanentResourceCache_getAll ls = Obj kvs \<Longrightarrow> map_of kvs t = Some v \<Longrightarrow>
   permanentResourceCache_get t ls = Some (Inr (Value (js_or v Null)))"
  by (simp add: permanentResourceCache_get_def)

lemma permanent_get_same:
  "permanentResourceCache_getAll ls = Obj kvs \<Longrightarrow> permanentResourceCache_getAll ls' = Obj kvs' \<Longrightarrow>
   map_of kvs' t = map_of kvs t \<Longrightarrow>
   permanentResourceCache_get t ls' = permanentResourceCache_get t ls"
  by (simp add: permanentResourceCache_get_def)

text \<open>
  Claim C7, as the code has it. Let the registry key hold nothing readable or a JSON
  object (so that \<^verbatim>\<open>getAll\<close> reads a map), let \<^verbatim>\<open>localStorage\<close> accept writes, and let the
  ticker \<open>t\<close> be another name than \<^verbatim>\<open>__proto__\<close> (\<^verbatim>\<open>XRD\<close> is one). Then \<^verbatim>\<open>add(t, addr, null)\<close>
  followed by \<^verbatim>\<open>addMultiple\<close> of one resource with the same ticker \<open>t\<close>, the address
  \<open>addr2\<close> and the icon \<^verbatim>\<open>"x"\<close> both succeed, \<^verbatim>\<open>get(t)\<close> returns the second write, and
  \<^verbatim>\<open>get\<close> of every other name returns what it returned before.
\<close>

theorem registry_last_write_wins:
  assumes room: "\<not> full ls" and map: "permanentResourceCache_getAll ls = Obj kvs"
      and name: "t \<noteq> ''__proto__''"
  shows "\<exists>ls1 ls2.
           permanentResourceCache_add t addr Null ls = Some ls1
         \<and> permanentResourceCache_addMultiple [\<lparr>ticker = t, address = addr2, iconUrl = Str ''x''\<rparr>] ls1 = Some ls2
         \<and> permanentResourceCache_get t ls2
             = Some (Inr (Value (Obj [(''address'', Str addr2), (''iconUrl'', Str ''x'')])))
         \<and> (\<forall>t'. t' \<noteq> t \<longrightarrow> permanentResourceCache_get t' ls2 = permanentResourceCache_get t' ls)"
proof -
  let ?r = "\<lparr>ticker = t, address = addr2, iconUrl = Str ''x''\<rparr>"
  let ?first = "put_property t (registry_entry addr Null) kvs"
  let ?second = "put_all ?first [?r]"
  have entry: "serializable (registry_entry addr Null)"
    by (rule serializable_entry_falsy) simp
  from permanent_add_result [where t = t, OF room map entry]
  obtain ls1 where ls1: "permanentResourceCache_add t addr Null ls = Some ls1" "\<not> full ls1"
      "permanentResourceCache_getAll ls1 = Obj ?first"
    by auto
  have second_entry: "list_all (\<lambda>r. serializable (registry_entry (address r) (iconUrl r))) [?r]"
    by (simp add: registry_entry_def js_or_def)
  from permanent_addMultiple_result [OF ls1(2) ls1(3) second_entry]
  obtain ls2 where ls2: "permanentResourceCache_addMultiple [?r] ls1 = Some ls2"
      "permanentResourceCache_getAll ls2 = Obj ?second"
    by auto
  have at: "map_of ?second t = Some (registry_entry addr2 (Str ''x''))"
    using name by (simp add: put_all_def map_of_put_property)
  have second: "permanentResourceCache_get t ls2
             = Some (Inr (Value (Obj [(''address'', Str addr2), (''iconUrl'', Str ''x'')])))"
    using permanent_get_own [OF ls2(2) at] by (simp add: registry_entry_def js_or_def)
  have others: "permanentResourceCache_get t' ls2 = permanentResourceCache_get t' ls" if "t' \<noteq> t" for t'
  proof (rule permanent_get_same [OF map ls2(2)])
    show "map_of ?second t' = map_of kvs t'"
      using that by (simp add: put_all_def map_of_put_property)
  qed
  from ls1(1) ls2(1) second others show ?thesis by blast
qed

theorem registry_last_write_wins_witness:
  "\<exists>ls1 ls2.
     permanentResourceCache_add ''XRD'' ''addr'' Null
       \<lparr>entries = [(''hypercave_resource_cache'',
            JsonText (JObj [(''BTC'', JObj [(''address'', JStr ''a0''), (''iconUrl'', JNull)])]))],
        full = False\<rparr> = Some ls1
   \<and> permanentResourceCache_addMultiple [\<lparr>ticker = ''XRD'', address = ''addr2'', iconUrl = Str ''x''\<rparr>] ls1
       = Some ls2
   \<and> permanentResourceCache_get ''XRD'' ls2
       = Some (Inr (Value (Obj [(''address'', Str ''addr2''), (''iconUrl'', Str ''x'')])))
   \<and> permanentResourceCache_get ''BTC'' ls2
       = Some (Inr (Value (Obj [(''address'', Str ''a0''), (''iconUrl'', Null)])))
   \<and> permanentResourceCache_get ''toString'' ls2 = Some (Inr (ObjectPrototypeMember ''toString''))"
proof -
  let ?ls = "\<lparr>entries = [(''hypercave_resource_cache'',
            JsonText (JObj [(''BTC'', JObj [(''address'', JStr ''a0''), (''iconUrl'', JNull)])]))],
        full = False\<rparr>"
  let ?kvs = "[(''BTC'', Obj [(''address'', Str ''a0''), (''iconUrl'', Null)])]"
  have room: "\<not> full ?ls" by simp
  have map: "permanentResourceCache_getAll ?ls = Obj ?kvs"
    by (simp add: permanentResourceCache_getAll_def getItem_def CACHE_PREFIX_def RESOURCE_CACHE_KEY_def
        object_of_members_def)
  have name: "''XRD'' \<noteq> ''__proto__''" by simp
  have before: "permanentResourceCache_get ''BTC'' ?ls
       = Some (Inr (Value (Obj [(''address'', Str ''a0''), (''iconUrl'', Null)])))"
    "permanentResourceCache_get ''toString'' ?ls = Some (Inr (ObjectPrototypeMember ''toString''))"
    by (simp_all add: permanentResourceCache_get_def map js_or_def object_prototype_names_def)
  from registry_last_write_wins [OF room map name, of "''addr''" "''addr2''"] before
  show ?thesis by fastforce
qed

text \<open>
  Claim C7 as stated fails when the browser refuses the writes: both are caught, nothing
  is stored, and \<^verbatim>\<open>get("XRD")\<close> returns \<^verbatim>\<open>null\<close> instead of the second write.
\<close>

theorem registry_last_write_wins_counterexample:
  "Option.bind
     (Option.bind (permanentResourceCache_add ''XRD'' ''addr'' Null \<lparr>entries = [], full = True\<rparr>)
        (permanentResourceCache_addMultiple [\<lparr>ticker = ''XRD'', address = ''addr2'', iconUrl = Str ''x''\<rparr>]))
     (permanentResourceCache_get ''XRD'')
   = Some (Inr (Value Null))"
  by code_simp

lemma stringify_members_keys:
  "fst ` set (concat (map (\<lambda>kv. case JSON_stringify (snd kv) of
                                    None \<Rightarrow> [] | Some j \<Rightarrow> [(fst kv, j)]) kvs))
     \<subseteq> fst ` set kvs"
  by (induction kvs) (auto split: option.splits)

lemma stringify_members_distinct:
  "distinct (map fst kvs) \<Longrightarrow>
   distinct (map fst (concat (map (\<lambda>kv. case JSON_stringify (snd kv) of
                                    None \<Rightarrow> [] | Some j \<Rightarrow> [(fst kv, j)]) kvs)))"
proof (induction kvs)
  case Nil
  then show ?case by simp
next
  case (Cons kv kvs)
  then show ?case
    using stringify_members_keys [of kvs] by (auto split: option.splits)
qed

lemma stringify_members_lookup:
  "distinct (map fst kvs) \<Longrightarrow>
   map_of (map (\<lambda>kv. (fst kv, JSON_parse (snd kv)))
            (concat (map (\<lambda>kv. case JSON_stringify (snd kv) of
                                    None \<Rightarrow> [] | Some j \<Rightarrow> [(fst kv, j)]) kvs))) t
     = (case map_of kvs t of
          None \<Rightarrow> None
        | Some v \<Rightarrow> map_option JSON_parse (JSON_stringify v))"
proof (induction kvs)
  case Nil
  then show ?case by simp
next
  case (Cons kv kvs)
  have absent: "map_of kvs (fst kv) = None"
    using Cons.prems by (simp add: map_of_eq_None_iff)
  show ?case
  proof (cases "t = fst kv")
    case True
    with Cons absent show ?thesis
      by (cases kv) (auto split: option.splits)
  next
    case False
    with Cons show ?thesis
      by (cases kv) (auto split: option.splits)
  qed
qed

lemma parse_stringify_property:
  assumes keys: "distinct (map fst kvs)" and at: "map_of kvs t = Some v" and ser: "serializable v"
  shows "\<exists>j kvs'. JSON_stringify (Obj kvs) = Some j \<and> JSON_parse j = Obj kvs'
           \<and> map_of kvs' t = Some v"
proof -
  let ?members = "concat (map (\<lambda>kv. case JSON_stringify (snd kv) of
                                    None \<Rightarrow> [] | Some j \<Rightarrow> [(fst kv, j)]) kvs)"
  let ?parsed = "map (\<lambda>kv. (fst kv, JSON_parse (snd kv))) ?members"
  from stringify_parse_roundtrip [OF ser]
  obtain jv where jv: "JSON_stringify v = Some jv" "JSON_parse jv = v" by blast
  have "distinct (map fst ?parsed)"
    using stringify_members_distinct [OF keys] by (simp add: o_def)
  then have same: "object_of_members ?parsed = ?parsed"
    by (rule object_of_members_distinct)
  have "map_of ?parsed t = Some v"
    using stringify_members_lookup [OF keys, of t] at jv by simp
  then have "map_of (object_of_members ?parsed) t = Some v"
    by (simp add: same)
  then show ?thesis by simp
qed

lemma getAll_write_registry_property:
  assumes room: "\<not> full ls" and keys: "distinct (map fst kvs)"
      and at: "map_of kvs t = Some v" and ser: "serializable v"
  shows "\<exists>kvs'. permanentResourceCache_getAll (write_registry (Obj kvs) ls) = Obj kvs'
           \<and> map_of kvs' t = Some v"
proof -
  from parse_stringify_property [OF keys at ser]
  obtain j kvs' where j: "JSON_stringify (Obj kvs) = Some j" "JSON_parse j = Obj kvs'"
      "map_of kvs' t = Some v"
    by blast
  have "permanentResourceCache_getAll (write_registry (Obj kvs) ls) = Obj kvs'"
    using room j(1,2)
    by (simp add: write_registry_def setItem_def stringified_def permanentResourceCache_getAll_def getItem_def
        update_conv' del: JSON_stringify.simps)
  with j(3) show ?thesis by blast
qed

lemma distinct_put_property:
  "distinct (map fst kvs) \<Longrightarrow> distinct (map fst (put_property k v kvs))"
  by (simp add: put_property_def distinct_define_property)

lemma distinct_put_all:
  "distinct (map fst kvs) \<Longrightarrow> distinct (map fst (put_all kvs rs))"
  unfolding put_all_def by (induction rs arbitrary: kvs) (simp_all add: distinct_put_property)

lemma map_of_put_all_last:
  assumes fresh: "ticker r \<notin> ticker ` set post" and name: "ticker r \<noteq> ''__proto__''"
  shows "map_of (put_all kvs (pre @ r # post)) (ticker r) = Some (registry_entry (address r) (iconUrl r))"
proof -
  have other: "map_of (put_all kvs' post) (ticker r) = map_of kvs' (ticker r)" for kvs'
    using fresh unfolding put_all_def
    by (induction post arbitrary: kvs') (simp_all add: map_of_put_property)
  have "put_all kvs (pre @ r # post)
          = put_all (put_property (ticker r) (registry_entry (address r) (iconUrl r)) (put_all kvs pre)) post"
    by (simp add: put_all_def)
  with other name show ?thesis by (simp add: map_of_put_property)
qed

text \<open>
  Claim C10, as the code has it. Let the registry key hold nothing readable or a JSON
  object, let \<^verbatim>\<open>localStorage\<close> accept the write, and let the ticker be another name than
  \<^verbatim>\<open>__proto__\<close>. After \<^verbatim>\<open>add\<close> with a falsy icon, \<^verbatim>\<open>get\<close> of the ticker returns the entry with
  the icon \<^verbatim>\<open>null\<close>. After \<^verbatim>\<open>addMultiple\<close>, the same holds for a resource \<open>r\<close> with a falsy
  icon when no later resource of the list has the ticker of \<open>r\<close>: a later resource with
  the same ticker overwrites the entry.
\<close>

theorem falsy_icon_stored_as_null:
  assumes room: "\<not> full ls" and map: "permanentResourceCache_getAll ls = Obj kvs"
      and falsy: "\<not> truthy icon" and name: "t \<noteq> ''__proto__''"
      and falsy_r: "\<not> truthy (iconUrl r)" and name_r: "ticker r \<noteq> ''__proto__''"
      and last: "ticker r \<notin> ticker ` set post"
  shows "(\<exists>ls'. permanentResourceCache_add t addr icon ls = Some ls'
            \<and> permanentResourceCache_get t ls'
                = Some (Inr (Value (Obj [(''address'', Str addr), (''iconUrl'', Null)]))))
       \<and> (\<exists>ls'. permanentResourceCache_addMultiple (pre @ r # post) ls = Some ls'
            \<and> permanentResourceCache_get (ticker r) ls'
                = Some (Inr (Value (Obj [(''address'', Str (address r)), (''iconUrl'', Null)]))))"
proof -
  have keys: "distinct (map fst kvs)"
    using serializable_getAll [of ls] map by simp
  have null_entry: "registry_entry a i = Obj [(''address'', Str a), (''iconUrl'', Null)]"
    if "\<not> truthy i" for a i
    using that by (simp add: registry_entry_def js_or_def)
  have truthy_entry: "js_or (Obj [(''address'', Str a), (''iconUrl'', Null)]) Null
      = Obj [(''address'', Str a), (''iconUrl'', Null)]" for a
    by (simp add: js_or_def)
  \<comment> \<open>\<^verbatim>\<open>add\<close>\<close>
  let ?one = "put_property t (registry_entry addr icon) kvs"
  have "\<exists>kvs'. permanentResourceCache_getAll (write_registry (Obj ?one) ls) = Obj kvs'
           \<and> map_of kvs' t = Some (registry_entry addr icon)"
    using room
  proof (rule getAll_write_registry_property)
    show "distinct (map fst ?one)" using keys by (rule distinct_put_property)
    show "map_of ?one t = Some (registry_entry addr icon)"
      using name by (simp add: map_of_put_property)
    show "serializable (registry_entry addr icon)" using falsy by (rule serializable_entry_falsy)
  qed
  then obtain kvs1 where kvs1: "permanentResourceCache_getAll (write_registry (Obj ?one) ls) = Obj kvs1"
      "map_of kvs1 t = Some (registry_entry addr icon)"
    by blast
  have add: "permanentResourceCache_add t addr icon ls = Some (write_registry (Obj ?one) ls)"
    by (simp add: permanentResourceCache_add_def map assign_entry del: assign_property.simps)
  have "permanentResourceCache_get t (write_registry (Obj ?one) ls)
      = Some (Inr (Value (js_or (registry_entry addr icon) Null)))"
    using kvs1 by (rule permanent_get_own)
  also have "\<dots> = Some (Inr (Value (Obj [(''address'', Str addr), (''iconUrl'', Null)])))"
    by (simp add: null_entry [OF falsy] truthy_entry)
  finally have one: "permanentResourceCache_get t (write_registry (Obj ?one) ls)
      = Some (Inr (Value (Obj [(''address'', Str addr), (''iconUrl'', Null)])))" .
  \<comment> \<open>\<^verbatim>\<open>addMultiple\<close>\<close>
  let ?many = "put_all kvs (pre @ r # post)"
  have "\<exists>kvs'. permanentResourceCache_getAll (write_registry (Obj ?many) ls) = Obj kvs'
           \<and> map_of kvs' (ticker r) = Some (registry_entry (address r) (iconUrl r))"
    using room
  proof (rule getAll_write_registry_property)
    show "distinct (map fst ?many)" using keys by (rule distinct_put_all)
    show "map_of ?many (ticker r) = Some (registry_entry (address r) (iconUrl r))"
      using last name_r by (rule map_of_put_all_last)
    show "serializable (registry_entry (address r) (iconUrl r))"
      using falsy_r by (rule serializable_entry_falsy)
  qed
  then obtain kvs2 where kvs2: "permanentResourceCache_getAll (write_registry (Obj ?many) ls) = Obj kvs2"
      "map_of kvs2 (ticker r) = Some (registry_entry (address r) (iconUrl r))"
    by blast
  have addMultiple: "permanentResourceCache_addMultiple (pre @ r # post) ls = Some (write_registry (Obj ?many) ls)"
    by (simp add: permanentResourceCache_addMultiple_def map assign_all_Obj)
  have "permanentResourceCache_get (ticker r) (write_registry (Obj ?many) ls)
      = Some (Inr (Value (js_or (registry_entry (address r) (iconUrl r)) Null)))"
    using kvs2 by (rule permanent_get_own)
  also have "\<dots> = Some (Inr (Value (Obj [(''address'', Str (address r)), (''iconUrl'', Null)])))"
    by (simp add: null_entry [OF falsy_r] truthy_entry)
  finally have many: "permanentResourceCache_get (ticker r) (write_registry (Obj ?many) ls)
      = Some (Inr (Value (Obj [(''address'', Str (address r)), (''iconUrl'', Null)])))" .
  from add one addMultiple many show ?thesis by simp
qed

theorem falsy_icon_stored_as_null_witness:
  "(\<exists>ls'. permanentResourceCache_add ''XRD'' ''addr'' (Str []) \<lparr>entries = [], full = False\<rparr> = Some ls'
      \<and> permanentResourceCache_get ''XRD'' ls'
          = Some (Inr (Value (Obj [(''address'', Str ''addr''), (''iconUrl'', Null)]))))
   \<and> (\<exists>ls'. permanentResourceCache_addMultiple
          [\<lparr>ticker = ''A'', address = ''a1'', iconUrl = Str ''u''\<rparr>,
           \<lparr>ticker = ''A'', address = ''a2'', iconUrl = Undefined\<rparr>,
           \<lparr>ticker = ''B'', address = ''b1'', iconUrl = Str ''w''\<rparr>]
          \<lparr>entries = [], full = False\<rparr> = Some ls'
      \<and> permanentResourceCache_get ''A'' ls'
          = Some (Inr (Value (Obj [(''address'', Str ''a2''), (''iconUrl'', Null)]))))"
proof -
  let ?ls = "\<lparr>entries = [], full = False\<rparr>"
  have room: "\<not> full ?ls" by simp
  have map: "permanentResourceCache_getAll ?ls = Obj []"
    by (simp add: permanentResourceCache_getAll_def getItem_def)
  from falsy_icon_stored_as_null [where icon = "Str []" and t = "''XRD''" and addr = "''addr''"
      and pre = "[\<lparr>ticker = ''A'', address = ''a1'', iconUrl = Str ''u''\<rparr>]"
      and r = "\<lparr>ticker = ''A'', address = ''a2'', iconUrl = Undefined\<rparr>"
      and post = "[\<lparr>ticker = ''B'', address = ''b1'', iconUrl = Str ''w''\<rparr>]",
      OF room map]
  show ?thesis by simp
qed

text \<open>
  Claim C10 as stated fails at three inputs. In a list with the ticker \<^verbatim>\<open>A\<close> twice, first
  with the icon \<^verbatim>\<open>""\<close> and then with the icon \<^verbatim>\<open>"x"\<close>, the entry stored for \<^verbatim>\<open>A\<close> has the
  icon \<^verbatim>\<open>"x"\<close>. When the browser refuses the write of \<^verbatim>\<open>add("A", "a1", "")\<close>, the entry
  stored before stays, with its icon. And \<^verbatim>\<open>add("__proto__", "a1", "")\<close> on an empty
  registry stores the text of the empty object, after which \<^verbatim>\<open>get("__proto__")\<close> returns
  \<^verbatim>\<open>Object.prototype\<close> and no entry.
\<close>

theorem falsy_icon_counterexample:
  "Option.bind
     (permanentResourceCache_addMultiple
        [\<lparr>ticker = ''A'', address = ''a1'', iconUrl = Str []\<rparr>,
         \<lparr>ticker = ''A'', address = ''a2'', iconUrl = Str ''x''\<rparr>]
        \<lparr>entries = [], full = False\<rparr>)
     (permanentResourceCache_get ''A'')
   = Some (Inr (Value (Obj [(''address'', Str ''a2''), (''iconUrl'', Str ''x'')])))
   \<and> Option.bind
     (permanentResourceCache_add ''A'' ''a1'' (Str [])
        \<lparr>entries = [(''hypercave_resource_cache'',
             JsonText (JObj [(''A'', JObj [(''address'', JStr ''a0''), (''iconUrl'', JStr ''x'')])]))],
         full = True\<rparr>)
     (permanentResourceCache_get ''A'')
   = Some (Inr (Value (Obj [(''address'', Str ''a0''), (''iconUrl'', Str ''x'')])))
   \<and> permanentResourceCache_add ''__proto__'' ''a1'' (Str []) \<lparr>entries = [], full = False\<rparr>
   = Some \<lparr>entries = [(''hypercave_resource_cache'', JsonText (JObj []))], full = False\<rparr>
   \<and> Option.bind
     (permanentResourceCache_add ''__proto__'' ''a1'' (Str []) \<lparr>entries = [], full = False\<rparr>)
     (permanentResourceCache_get ''__proto__'')
   = Some (Inr (ObjectPrototypeMember ''__proto__''))"
  by code_simp

section \<open>The text of the manifests\<close>

lemma nat_to_string_nonempty: "nat_to_string n \<noteq> []"
  by (subst nat_to_string.simps) simp

lemma digit_char_inj: "a < 10 \<Longrightarrow> b < 10 \<Longrightarrow> digit_char a = digit_char b \<Longrightarrow> a = b"
  using nth_eq_iff_index_eq [of "''0123456789''" a b] by (simp add: digit_char_def)

lemma nat_to_string_inj: "nat_to_string n = nat_to_string m \<Longrightarrow> n = m"
proof (induction n arbitrary: m rule: nat_to_string.induct)
  case (1 n)
  show ?case
  proof (cases "n < 10")
    case small_n: True
    show ?thesis
    proof (cases "m < 10")
      case True
      with small_n "1.prems" show ?thesis
        by (simp add: nat_to_string.simps [of n] nat_to_string.simps [of m] digit_char_inj)
    next
      case False
      with small_n "1.prems" nat_to_string_nonempty [of "m div 10"] show ?thesis
        by (simp add: nat_to_string.simps [of n] nat_to_string.simps [of m])
    qed
  next
    case big_n: False
    show ?thesis
    proof (cases "m < 10")
      case True
      with big_n "1.prems" nat_to_string_nonempty [of "n div 10"] show ?thesis
        by (simp add: nat_to_string.simps [of n] nat_to_string.simps [of m])
    next
      case False
      with big_n "1.prems"
      have front_eq: "nat_to_string (n div 10) = nat_to_string (m div 10)"
        and last_eq: "digit_char (n mod 10) = digit_char (m mod 10)"
        by (simp_all add: nat_to_string.simps [of n] nat_to_string.simps [of m])
      from "1.IH" [OF big_n front_eq] have d: "n div 10 = m div 10" .
      from last_eq have r: "n mod 10 = m mod 10" by (simp add: digit_char_inj)
      from d r show ?thesis by (metis div_mult_mod_eq)
    qed
  qed
qed

lemma distinct_bucket_names: "distinct (map bucket_name [0..<n])"
  by (simp add: distinct_map inj_on_def bucket_name_def nat_to_string_inj)

lemma foldl_append_concat:
  "foldl (\<lambda>m x. m @ f x) m0 xs = m0 @ concat (map f xs)"
  by (induction xs arbitrary: m0) simp_all

lemma trim_between_newlines:
  assumes "s \<noteq> []" "\<not> isWhiteSpace (hd s)" "\<not> isWhiteSpace (last s)"
  shows "trim (''\<newline>'' @ s @ ''\<newline>'') = s"
proof -
  have nl: "isWhiteSpace CHR ''\<newline>''" by (simp add: isWhiteSpace_def)
  have "dropWhile isWhiteSpace (''\<newline>'' @ s @ ''\<newline>'') = s @ ''\<newline>''"
    using nl assms(1,2) by (cases s) simp_all
  moreover have "dropWhile isWhiteSpace (rev (s @ ''\<newline>'')) = rev s"
    using nl assms(1,3) by (simp add: dropWhile_eq_self_iff hd_rev)
  ultimately show ?thesis by (simp add: trim_def)
qed

lemma concat_blocks_Cons:
  "concat (map (\<lambda>y. ''\<newline>'' @ y @ ''\<newline>'') (y # ys))
     = ''\<newline>'' @ array_join ''\<newline>\<newline>'' (y # ys) @ ''\<newline>''"
  by (induction ys arbitrary: y) simp_all

lemma concat_blocks:
  "ys \<noteq> [] \<Longrightarrow>
   concat (map (\<lambda>y. ''\<newline>'' @ y @ ''\<newline>'') ys)
     = ''\<newline>'' @ array_join ''\<newline>\<newline>'' ys @ ''\<newline>''"
  using concat_blocks_Cons by (cases ys) simp_all

lemma instruction_text_nonempty: "instruction_text i \<noteq> []"
  by (cases i) simp_all

lemma hd_instruction_text: "\<not> isWhiteSpace (hd (instruction_text i))"
  by (cases i) (simp_all add: isWhiteSpace_def)

lemma last_instruction_text: "last (instruction_text i) = CHR '';''"
  by (cases i) simp_all

lemma array_join_nonempty: "xs \<noteq> [] \<Longrightarrow> hd xs \<noteq> [] \<Longrightarrow> array_join sep xs \<noteq> []"
  by (induction sep xs rule: array_join.induct) simp_all

lemma hd_array_join: "xs \<noteq> [] \<Longrightarrow> hd xs \<noteq> [] \<Longrightarrow> hd (array_join sep xs) = hd (hd xs)"
  by (induction sep xs rule: array_join.induct) simp_all

lemma last_array_join:
  "xs \<noteq> [] \<Longrightarrow> \<forall>x \<in> set xs. x \<noteq> [] \<Longrightarrow> last (array_join sep xs) = last (last xs)"
proof (induction sep xs rule: array_join.induct)
  case (3 sep x y ys)
  then have "array_join sep (y # ys) \<noteq> []" by (simp add: array_join_nonempty)
  with 3 show ?case by simp
qed simp_all

lemma trim_manifest_text:
  assumes "instrs \<noteq> []"
  shows "trim (''\<newline>'' @ manifest_text instrs @ ''\<newline>'') = manifest_text instrs"
proof (rule trim_between_newlines)
  let ?ts = "map instruction_text instrs"
  have ne: "?ts \<noteq> []" using assms by simp
  have hd_ne: "hd ?ts \<noteq> []" using assms by (simp add: hd_map instruction_text_nonempty)
  show "manifest_text instrs \<noteq> []"
    unfolding manifest_text_def using ne hd_ne by (rule array_join_nonempty)
  have "hd (manifest_text instrs) = hd (instruction_text (hd instrs))"
    unfolding manifest_text_def using assms hd_array_join [OF ne hd_ne] by (simp add: hd_map)
  then show "\<not> isWhiteSpace (hd (manifest_text instrs))" by (simp add: hd_instruction_text)
  have "last (manifest_text instrs) = last (instruction_text (last instrs))"
    unfolding manifest_text_def using assms last_array_join [OF ne]
    by (simp add: last_map instruction_text_nonempty)
  then show "\<not> isWhiteSpace (last (manifest_text instrs))"
    by (simp add: last_instruction_text isWhiteSpace_def)
qed

lemma trim_blocks:
  assumes "instrs \<noteq> []"
  shows "trim (concat (map (\<lambda>i. ''\<newline>'' @ instruction_text i @ ''\<newline>'') instrs))
           = manifest_text instrs"
proof -
  have "concat (map (\<lambda>i. ''\<newline>'' @ instruction_text i @ ''\<newline>'') instrs)
          = concat (map (\<lambda>y. ''\<newline>'' @ y @ ''\<newline>'') (map instruction_text instrs))"
    by (simp add: o_def)
  also have "\<dots> = ''\<newline>'' @ manifest_text instrs @ ''\<newline>''"
    unfolding manifest_text_def using assms by (intro concat_blocks) simp
  finally have eq: "concat (map (\<lambda>i. ''\<newline>'' @ instruction_text i @ ''\<newline>'') instrs)
          = ''\<newline>'' @ manifest_text instrs @ ''\<newline>''" .
  show ?thesis unfolding eq by (rule trim_manifest_text [OF assms])
qed

lemma map_index_enumerate:
  "map (\<lambda>p. f (fst p)) (enumerate 0 rs) = map f [0..<length rs]"
proof -
  have "map (\<lambda>p. f (fst p)) (enumerate 0 rs) = map f (map fst (enumerate 0 rs))"
    by (simp only: map_map o_def)
  then show ?thesis by simp
qed

lemma concat_map_concat:
  "concat (map f (concat xss)) = concat (map (\<lambda>xs. concat (map f xs)) xss)"
  by (induction xss) simp_all

lemma look_cave_text:
  "buildLookCaveManifest c a n i addrs =
     manifest_text
       [create_proof a n i, pop_proof,
        CALL_METHOD c ''query_balances''
          [MProof ''nft_proof'', MArray ''Address'' (map MAddress addrs)]]"
proof -
  let ?instrs = "[create_proof a n i, pop_proof,
        CALL_METHOD c ''query_balances''
          [MProof ''nft_proof'', MArray ''Address'' (map MAddress addrs)]]"
  have "buildLookCaveManifest c a n i addrs
          = trim (concat (map (\<lambda>i. ''\<newline>'' @ instruction_text i @ ''\<newline>'') ?instrs))"
    by (simp add: buildLookCaveManifest_def create_proof_def pop_proof_def argument_line_def o_def)
  also have "\<dots> = manifest_text ?instrs"
    by (rule trim_blocks) simp
  finally show ?thesis .
qed

lemma out_cave_text:
  "buildOutCaveManifest c a n i ws =
     manifest_text
       [create_proof a n i, pop_proof,
        CALL_METHOD c ''out_cave''
          [MProof ''nft_proof'',
           MArray ''Tuple'' (map (\<lambda>w. MTuple [MAddress (resourceAddress w), MDecimal (amount w)]) ws)],
        CALL_METHOD a ''deposit_batch'' [MExpression ''ENTIRE_WORKTOP'']]"
proof -
  let ?instrs = "[create_proof a n i, pop_proof,
        CALL_METHOD c ''out_cave''
          [MProof ''nft_proof'',
           MArray ''Tuple'' (map (\<lambda>w. MTuple [MAddress (resourceAddress w), MDecimal (amount w)]) ws)],
        CALL_METHOD a ''deposit_batch'' [MExpression ''ENTIRE_WORKTOP'']]"
  have "buildOutCaveManifest c a n i ws
          = trim (concat (map (\<lambda>i. ''\<newline>'' @ instruction_text i @ ''\<newline>'') ?instrs))"
    by (simp add: buildOutCaveManifest_def create_proof_def pop_proof_def argument_line_def o_def)
  also have "\<dots> = manifest_text ?instrs"
    by (rule trim_blocks) simp
  finally show ?thesis .
qed

lemma in_cave_text:
  "buildInCaveManifest c a n i rs =
     manifest_text
       ([create_proof a n i, pop_proof]
        @ concat (map (withdraw_and_take a) (enumerate 0 rs))
        @ [CALL_METHOD c ''in_cave''
             [MProof ''nft_proof'',
              MArray ''Bucket'' (map (\<lambda>k. MBucket (bucket_name k)) [0..<length rs])]])"
proof -
  let ?wrap = "\<lambda>i. ''\<newline>'' @ instruction_text i @ ''\<newline>''"
  let ?instrs = "[create_proof a n i, pop_proof]
        @ concat (map (withdraw_and_take a) (enumerate 0 rs))
        @ [CALL_METHOD c ''in_cave''
             [MProof ''nft_proof'',
              MArray ''Bucket'' (map (\<lambda>k. MBucket (bucket_name k)) [0..<length rs])]]"
  have buckets:
    "map (\<lambda>(index, _). ''Bucket(\"bucket_'' @ nat_to_string index @ ''\")'') (enumerate 0 rs)
       = map value_text (map (\<lambda>k. MBucket (bucket_name k)) [0..<length rs])"
    using map_index_enumerate [of "\<lambda>k. ''Bucket(\"bucket_'' @ nat_to_string k @ ''\")''" rs]
    by (simp add: case_prod_unfold o_def bucket_name_def)
  have "buildInCaveManifest c a n i rs = trim (concat (map ?wrap ?instrs))"
    unfolding buildInCaveManifest_def Let_def buckets
    by (simp add: foldl_append_concat case_prod_unfold concat_map_concat withdraw_and_take_def o_def bucket_name_def
        create_proof_def pop_proof_def argument_line_def)
  also have "\<dots> = manifest_text ?instrs"
    by (rule trim_blocks) simp
  finally show ?thesis .
qed

text \<open>
  The three examples of the specification, computed from the builders: the lists
  \<^verbatim>\<open>[{A, "10"}, {B, "5"}]\<close> for a deposit and a withdrawal, and \<^verbatim>\<open>[A, B]\<close> for a query.
\<close>

lemma buildInCaveManifest_example:
  \<open>buildInCaveManifest ''component_c'' ''account_a'' ''collection_n'' ''#1#''
     [\<lparr>resourceAddress = ''A'', amount = ''10''\<rparr>, \<lparr>resourceAddress = ''B'', amount = ''5''\<rparr>]
   = ''CALL_METHOD\<newline>'' @
     ''  Address("account_a")\<newline>'' @
     ''  "create_proof_of_non_fungibles"\<newline>'' @
     ''  Address("collection_n")\<newline>'' @
     ''  Array<NonFungibleLocalId>(NonFungibleLocalId("#1#"))\<newline>'' @
     '';\<newline>'' @
     ''\<newline>'' @
     ''POP_FROM_AUTH_ZONE\<newline>'' @
     ''  Proof("nft_proof")\<newline>'' @
     '';\<newline>'' @
     ''\<newline>'' @
     ''CALL_METHOD\<newline>'' @
     ''  Address("account_a")\<newline>'' @
     ''  "withdraw"\<newline>'' @
     ''  Address("A")\<newline>'' @
     ''  Decimal("10")\<newline>'' @
     '';\<newline>'' @
     ''\<newline>'' @
     ''TAKE_FROM_WORKTOP\<newline>'' @
     ''  Address("A")\<newline>'' @
     ''  Decimal("10")\<newline>'' @
     ''  Bucket("bucket_0")\<newline>'' @
     '';\<newline>'' @
     ''\<newline>'' @
     ''CALL_METHOD\<newline>'' @
     ''  Address("account_a")\<newline>'' @
     ''  "withdraw"\<newline>'' @
     ''  Address("B")\<newline>'' @
     ''  Decimal("5")\<newline>'' @
     '';\<newline>'' @
     ''\<newline>'' @
     ''TAKE_FROM_WORKTOP\<newline>'' @
     ''  Address("B")\<newline>'' @
     ''  Decimal("5")\<newline>'' @
     ''  Bucket("bucket_1")\<newline>'' @
     '';\<newline>'' @
     ''\<newline>'' @
     ''CALL_METHOD\<newline>'' @
     ''  Address("component_c")\<newline>'' @
     ''  "in_cave"\<newline>'' @
     ''  Proof("nft_proof")\<newline>'' @
     ''  Array<Bucket>(Bucket("bucket_0"), Bucket("bucket_1"))\<newline>'' @
     '';''\<close>
  by code_simp

lemma buildOutCaveManifest_example:
  \<open>buildOutCaveManifest ''component_c'' ''account_a'' ''collection_n'' ''#1#''
     [\<lparr>resourceAddress = ''A'', amount = ''10''\<rparr>, \<lparr>resourceAddress = ''B'', amount = ''5''\<rparr>]
   = ''CALL_METHOD\<newline>'' @
     ''  Address("account_a")\<newline>'' @
     ''  "create_proof_of_non_fungibles"\<newline>'' @
     ''  Address("collection_n")\<newline>'' @
     ''  Array<NonFungibleLocalId>(NonFungibleLocalId("#1#"))\<newline>'' @
     '';\<newline>'' @
     ''\<newline>'' @
     ''POP_FROM_AUTH_ZONE\<newline>'' @
     ''  Proof("nft_proof")\<newline>'' @
     '';\<newline>'' @
     ''\<newline>'' @
     ''CALL_METHOD\<newline>'' @
     ''  Address("component_c")\<newline>'' @
     ''  "out_cave"\<newline>'' @
     ''  Proof("nft_proof")\<newline>'' @
     ''  Array<Tuple>(Tuple(Address("A"), Decimal("10")), Tuple(Address("B"), Decimal("5")))\<newline>'' @
     '';\<newline>'' @
     ''\<newline>'' @
     ''CALL_METHOD\<newline>'' @
     ''  Address("account_a")\<newline>'' @
     ''  "deposit_batch"\<newline>'' @
     ''  Expression("ENTIRE_WORKTOP")\<newline>'' @
     '';''\<close>
  by code_simp

lemma buildLookCaveManifest_example:
  \<open>buildLookCaveManifest ''component_c'' ''account_a'' ''collection_n'' ''#1#'' [''A'', ''B'']
   = ''CALL_METHOD\<newline>'' @
     ''  Address("account_a")\<newline>'' @
     ''  "create_proof_of_non_fungibles"\<newline>'' @
     ''  Address("collection_n")\<newline>'' @
     ''  Array<NonFungibleLocalId>(NonFungibleLocalId("#1#"))\<newline>'' @
     '';\<newline>'' @
     ''\<newline>'' @
     ''POP_FROM_AUTH_ZONE\<newline>'' @
     ''  Proof("nft_proof")\<newline>'' @
     '';\<newline>'' @
     ''\<newline>'' @
     ''CALL_METHOD\<newline>'' @
     ''  Address("component_c")\<newline>'' @
     ''  "query_balances"\<newline>'' @
     ''  Proof("nft_proof")\<newline>'' @
     ''  Array<Address>(Address("A"), Address("B"))\<newline>'' @
     '';''\<close>
  by code_simp

section \<open>Reading the text of a manifest back\<close>

text \<open>
  \<open>read_manifest\<close> is a left inverse of \<open>manifest_text\<close> on the plain statement lists:
  the text of such a list reads as that list and as no other.
\<close>

lemma read_until_text: "c \<notin> set a \<Longrightarrow> read_until c (a @ c # rest) = Some (a, rest)"
proof -
  assume fresh: "c \<notin> set a"
  then have "dropWhile (\<lambda>x. x \<noteq> c) (a @ c # rest) = c # rest"
    by (induction a) auto
  moreover from fresh have "takeWhile (\<lambda>x. x \<noteq> c) (a @ c # rest) = a"
    by (induction a) auto
  ultimately show ?thesis by (simp add: read_until_def)
qed

lemma expect_text: "expect p (p @ r) = Some r"
  by (simp add: expect_def startsWith_def)

lemma quoted_text:
  "plain a \<Longrightarrow> quoted opener closer (opener @ a @ CHR 0x22 # closer @ rest) = Some (a, rest)"
  by (simp add: quoted_def expect_text read_until_text plain_def)

lemma value_text_head: "\<exists>c cs. value_text v = c # cs \<and> c \<noteq> CHR '')''"
  by (cases v) simp_all

lemma read_literal_text:
  assumes "plain a"
  shows "read_value (Suc k) (value_text (MAddress a) @ rest) = Some (MAddress a, rest)"
    and "read_value (Suc k) (value_text (MDecimal a) @ rest) = Some (MDecimal a, rest)"
    and "read_value (Suc k) (value_text (MProof a) @ rest) = Some (MProof a, rest)"
    and "read_value (Suc k) (value_text (MBucket a) @ rest) = Some (MBucket a, rest)"
    and "read_value (Suc k) (value_text (MNonFungibleLocalId a) @ rest) = Some (MNonFungibleLocalId a, rest)"
    and "read_value (Suc k) (value_text (MExpression a) @ rest) = Some (MExpression a, rest)"
  using quoted_text [OF assms, of "''Address(\"''" "'')''" rest]
    quoted_text [OF assms, of "''Decimal(\"''" "'')''" rest]
    quoted_text [OF assms, of "''Proof(\"''" "'')''" rest]
    quoted_text [OF assms, of "''Bucket(\"''" "'')''" rest]
    quoted_text [OF assms, of "''NonFungibleLocalId(\"''" "'')''" rest]
    quoted_text [OF assms, of "''Expression(\"''" "'')''" rest]
  by (simp_all add: literal_kinds_def startsWith_def)

lemma read_more_text:
  assumes elems: "\<And>x n rest. x \<in> set xs \<Longrightarrow> length (value_text x) \<le> n \<Longrightarrow>
                    read_value n (value_text x @ rest) = Some (x, rest)"
      and "xs \<noteq> []"
      and "length (array_join '', '' (map value_text xs)) < m"
  shows "read_more m (array_join '', '' (map value_text xs) @ '')'' @ rest) = Some (xs, rest)"
  using assms
proof (induction xs arbitrary: m)
  case Nil
  then show ?case by simp
next
  case step: (Cons x xs)
  from step.prems(3) obtain k where m: "m = Suc k" by (cases m) simp_all
  show ?case
  proof (cases xs)
    case Nil
    have "read_value k (value_text x @ '')'' @ rest) = Some (x, '')'' @ rest)"
      using step.prems(3) m Nil by (intro step.prems(1)) simp_all
    then show ?thesis using Nil m by (simp add: startsWith_def)
  next
    case more: (Cons y ys)
    let ?tail = "array_join '', '' (map value_text (y # ys))"
    have first: "read_value k (value_text x @ '', '' @ ?tail @ '')'' @ rest)
                   = Some (x, '', '' @ ?tail @ '')'' @ rest)"
      using step.prems(3) m more by (intro step.prems(1)) simp_all
    have "read_more k (?tail @ '')'' @ rest) = Some (y # ys, rest)"
    proof (rule step.IH [unfolded more])
      show "read_value n (value_text z @ rest') = Some (z, rest')"
        if "z \<in> set (y # ys)" "length (value_text z) \<le> n" for z n rest'
        using that more by (intro step.prems(1)) simp_all
      show "y # ys \<noteq> []" by simp
      show "length ?tail < k" using step.prems(3) m more by simp
    qed
    with first show ?thesis using more m by (simp add: startsWith_def expect_def)
  qed
qed

lemma read_values_text:
  assumes elems: "\<And>x n rest. x \<in> set xs \<Longrightarrow> length (value_text x) \<le> n \<Longrightarrow>
                    read_value n (value_text x @ rest) = Some (x, rest)"
      and bound: "length (array_join '', '' (map value_text xs)) + 1 < m"
  shows "read_values m (array_join '', '' (map value_text xs) @ '')'' @ rest) = Some (xs, rest)"
proof -
  from bound obtain k where m: "m = Suc k" by (cases m) simp_all
  show ?thesis
  proof (cases xs)
    case Nil
    then show ?thesis using m by (simp add: startsWith_def)
  next
    case (Cons y ys)
    obtain c cs where c: "value_text y = c # cs" "c \<noteq> CHR '')''"
      using value_text_head by blast
    have no_close: "\<not> startsWith (array_join '', '' (map value_text xs) @ '')'' @ rest) '')''"
      using c Cons by (cases ys) (simp_all add: startsWith_def)
    have "read_more k (array_join '', '' (map value_text xs) @ '')'' @ rest) = Some (xs, rest)"
      using elems
    proof (rule read_more_text)
      show "xs \<noteq> []" using Cons by simp
      show "length (array_join '', '' (map value_text xs)) < k" using bound m by simp
    qed
    with no_close show ?thesis using m by simp
  qed
qed

lemma read_value_text:
  "plain_value v \<Longrightarrow> length (value_text v) \<le> n \<Longrightarrow>
   read_value n (value_text v @ rest) = Some (v, rest)"
proof (induction v arbitrary: n rest)
  case (MTuple xs)
  from MTuple.prems(2) obtain k where n: "n = Suc k" by (cases n) simp_all
  have "read_values k (array_join '', '' (map value_text xs) @ '')'' @ rest) = Some (xs, rest)"
  proof (rule read_values_text)
    show "read_value n' (value_text x @ rest') = Some (x, rest')"
      if "x \<in> set xs" "length (value_text x) \<le> n'" for x n' rest'
      using that MTuple.prems(1) by (intro MTuple.IH) (simp_all add: list_all_iff)
    show "length (array_join '', '' (map value_text xs)) + 1 < k"
      using MTuple.prems(2) n by simp
  qed
  then show ?case using n by (simp add: startsWith_def)
next
  case (MArray kind xs)
  from MArray.prems(2) obtain k where n: "n = Suc k" by (cases n) simp_all
  have inner: "read_values k (array_join '', '' (map value_text xs) @ '')'' @ rest) = Some (xs, rest)"
  proof (rule read_values_text)
    show "read_value n' (value_text x @ rest') = Some (x, rest')"
      if "x \<in> set xs" "length (value_text x) \<le> n'" for x n' rest'
      using that MArray.prems(1) by (intro MArray.IH) (simp_all add: list_all_iff)
    show "length (array_join '', '' (map value_text xs)) + 1 < k"
      using MArray.prems(2) n by simp
  qed
  have kind: "read_until CHR ''>'' (kind @ CHR ''>'' # ''('' @ array_join '', '' (map value_text xs) @ '')'' @ rest)
                = Some (kind, ''('' @ array_join '', '' (map value_text xs) @ '')'' @ rest)"
    using MArray.prems(1) by (intro read_until_text) simp
  show ?case using n kind inner by (simp add: startsWith_def expect_def)
next
  case (MAddress a)
  then obtain k where "n = Suc k" by (cases n) simp_all
  with MAddress show ?case using read_literal_text(1) [of a k rest] by simp
next
  case (MDecimal a)
  then obtain k where "n = Suc k" by (cases n) simp_all
  with MDecimal show ?case using read_literal_text(2) [of a k rest] by simp
next
  case (MProof a)
  then obtain k where "n = Suc k" by (cases n) simp_all
  with MProof show ?case using read_literal_text(3) [of a k rest] by simp
next
  case (MBucket a)
  then obtain k where "n = Suc k" by (cases n) simp_all
  with MBucket show ?case using read_literal_text(4) [of a k rest] by simp
next
  case (MNonFungibleLocalId a)
  then obtain k where "n = Suc k" by (cases n) simp_all
  with MNonFungibleLocalId show ?case using read_literal_text(5) [of a k rest] by simp
next
  case (MExpression a)
  then obtain k where "n = Suc k" by (cases n) simp_all
  with MExpression show ?case using read_literal_text(6) [of a k rest] by simp
qed

lemma read_arguments_text:
  "list_all plain_value args \<Longrightarrow>
   length (concat (map (\<lambda>x. argument_line (value_text x)) args)) < m \<Longrightarrow>
   read_arguments m (concat (map (\<lambda>x. argument_line (value_text x)) args) @ ''\<newline>;'' @ rest)
     = Some (args, rest)"
proof (induction args arbitrary: m)
  case Nil
  then obtain k where "m = Suc k" by (cases m) simp_all
  then show ?case by (simp add: startsWith_def)
next
  case (Cons x xs)
  let ?tail = "concat (map (\<lambda>x. argument_line (value_text x)) xs) @ ''\<newline>;'' @ rest"
  from Cons.prems(2) obtain k where m: "m = Suc k" by (cases m) simp_all
  have first: "read_value k (value_text x @ ?tail) = Some (x, ?tail)"
    using Cons.prems m by (intro read_value_text) (simp_all add: argument_line_def)
  have "read_arguments k ?tail = Some (xs, rest)"
    using Cons.prems m by (intro Cons.IH) (simp_all add: argument_line_def)
  with first show ?case using m
    by (simp add: startsWith_def expect_def argument_line_def)
qed

lemma read_instruction_text:
  "plain_instruction i \<Longrightarrow> length (instruction_text i) \<le> n \<Longrightarrow>
   read_instruction n (instruction_text i @ rest) = Some (i, rest)"
proof (cases i)
  case call: (CALL_METHOD account name arguments)
  assume plain: "plain_instruction i" and bound: "length (instruction_text i) \<le> n"
  let ?lines = "concat (map (\<lambda>x. argument_line (value_text x)) arguments)"
  have first: "quoted ''CALL_METHOD\<newline>  Address(\"'' '')\<newline>  \"''
      (''CALL_METHOD\<newline>  Address(\"'' @ account @ CHR 0x22 # '')\<newline>  \"''
         @ name @ CHR 0x22 # ?lines @ ''\<newline>;'' @ rest)
      = Some (account, name @ CHR 0x22 # ?lines @ ''\<newline>;'' @ rest)"
    using plain call by (intro quoted_text) simp
  have second: "read_until (CHR 0x22) (name @ CHR 0x22 # ?lines @ ''\<newline>;'' @ rest)
      = Some (name, ?lines @ ''\<newline>;'' @ rest)"
    using plain call by (intro read_until_text) (simp add: plain_def)
  have others: "read_arguments n (?lines @ ''\<newline>;'' @ rest) = Some (arguments, rest)"
    using plain bound call by (intro read_arguments_text) simp_all
  show ?thesis
    using first second others call
    by (simp add: read_instruction_def startsWith_def argument_line_def)
next
  case (POP_FROM_AUTH_ZONE p)
  assume plain: "plain_instruction i"
  have "quoted ''POP_FROM_AUTH_ZONE\<newline>  Proof(\"'' '')\<newline>;''
      (''POP_FROM_AUTH_ZONE\<newline>  Proof(\"'' @ p @ CHR 0x22 # '')\<newline>;'' @ rest) = Some (p, rest)"
    using plain POP_FROM_AUTH_ZONE by (intro quoted_text) simp
  then show ?thesis
    using POP_FROM_AUTH_ZONE
    by (simp add: read_instruction_def startsWith_def argument_line_def)
next
  case (TAKE_FROM_WORKTOP res amt bucket)
  assume plain: "plain_instruction i"
  let ?after_amt = "''\<newline>  Bucket(\"'' @ bucket @ CHR 0x22 # '')\<newline>;'' @ rest"
  let ?after_res = "''\<newline>  Decimal(\"'' @ amt @ CHR 0x22 # '')'' @ ?after_amt"
  have res: "quoted ''TAKE_FROM_WORKTOP\<newline>  Address(\"'' '')''
      (''TAKE_FROM_WORKTOP\<newline>  Address(\"'' @ res @ CHR 0x22 # '')'' @ ?after_res)
      = Some (res, ?after_res)"
    using plain TAKE_FROM_WORKTOP by (intro quoted_text) simp
  have amt: "quoted ''\<newline>  Decimal(\"'' '')'' ?after_res = Some (amt, ?after_amt)"
    using plain TAKE_FROM_WORKTOP by (intro quoted_text) simp
  have bucket: "quoted ''\<newline>  Bucket(\"'' '')\<newline>;'' ?after_amt = Some (bucket, rest)"
    using plain TAKE_FROM_WORKTOP by (intro quoted_text) simp
  show ?thesis
    using res amt bucket TAKE_FROM_WORKTOP
    by (simp add: read_instruction_def startsWith_def argument_line_def)
qed

lemma read_statements_text:
  "list_all plain_instruction instrs \<Longrightarrow> instrs \<noteq> [] \<Longrightarrow>
   length (manifest_text instrs) < m \<Longrightarrow>
   read_statements m (manifest_text instrs) = Some instrs"
proof (induction instrs arbitrary: m)
  case Nil
  then show ?case by simp
next
  case (Cons i instrs)
  from Cons.prems(3) obtain k where m: "m = Suc k" by (cases m) simp_all
  show ?case
  proof (cases instrs)
    case Nil
    have "read_instruction k (instruction_text i @ []) = Some (i, [])"
      using Cons.prems m Nil by (intro read_instruction_text) (simp_all add: manifest_text_def)
    then show ?thesis using m Nil by (simp add: manifest_text_def)
  next
    case more: (Cons j js)
    let ?tail = "manifest_text (j # js)"
    have first: "read_instruction k (instruction_text i @ ''\<newline>\<newline>'' @ ?tail)
        = Some (i, ''\<newline>\<newline>'' @ ?tail)"
      using Cons.prems m more by (intro read_instruction_text) (simp_all add: manifest_text_def)
    have "read_statements k ?tail = Some (j # js)"
      using Cons.prems m more Cons.IH [of k] by (simp add: manifest_text_def)
    with first show ?thesis using m more
      by (simp add: manifest_text_def expect_def startsWith_def)
  qed
qed

lemma read_manifest_text:
  assumes "list_all plain_instruction instrs"
  shows "read_manifest (manifest_text instrs) = Some instrs"
proof (cases instrs)
  case Nil
  then show ?thesis by (simp add: read_manifest_def manifest_text_def)
next
  case (Cons i js)
  have "manifest_text instrs \<noteq> []"
    unfolding manifest_text_def using Cons
    by (intro array_join_nonempty) (simp_all add: instruction_text_nonempty)
  moreover have "read_statements (Suc (length (manifest_text instrs))) (manifest_text instrs) = Some instrs"
    using assms Cons by (intro read_statements_text) simp_all
  ultimately show ?thesis by (simp add: read_manifest_def)
qed

lemma manifest_text_unique_reading:
  assumes "list_all plain_instruction xs" "list_all plain_instruction ys"
      and "manifest_text xs = manifest_text ys"
  shows "xs = ys"
proof -
  have "Some xs = read_manifest (manifest_text xs)"
    using assms(1) by (simp only: read_manifest_text)
  also have "\<dots> = read_manifest (manifest_text ys)"
    by (simp only: assms(3))
  also have "\<dots> = Some ys"
    using assms(2) by (simp only: read_manifest_text)
  finally show ?thesis by simp
qed

lemma digits_nat_to_string: "set (nat_to_string n) \<subseteq> set ''0123456789''"
proof (induction n rule: nat_to_string.induct)
  case (1 n)
  have digit: "digit_char d \<in> set ''0123456789''" if "d < 10" for d
    unfolding digit_char_def using that by (intro nth_mem) simp
  show ?case
  proof (cases "n < 10")
    case True
    then show ?thesis using digit [of n] by (subst nat_to_string.simps) simp
  next
    case False
    then show ?thesis using "1.IH" digit [of "n mod 10"] by (subst nat_to_string.simps) simp
  qed
qed

lemma plain_bucket_name: "plain (bucket_name k)"
  using digits_nat_to_string [of k] by (auto simp: plain_def bucket_name_def)

lemma taken_buckets_withdraw_and_take:
  "taken_buckets (concat (map (withdraw_and_take a) xs)) = map (\<lambda>p. bucket_name (fst p)) xs"
  unfolding taken_buckets_def by (induction xs) (simp_all add: withdraw_and_take_def)

lemma plain_names:
  "plain ''nft_proof''" "plain ''create_proof_of_non_fungibles''" "plain ''withdraw''"
  "plain ''in_cave''" "plain ''out_cave''" "plain ''deposit_batch''" "plain ''query_balances''"
  "plain ''ENTIRE_WORKTOP''"
  by (simp_all add: plain_def)

text \<open>
  Claim C3, as the code has it. Let no string of the input hold a double quote: the
  component and account addresses, the collection, the id, and the address and amount
  of every resource. Then the deposit manifest reads as this statement list: the call
  that creates the proof of the given collection and id, the pop of the proof into
  \<^verbatim>\<open>nft_proof\<close>, then for each resource in input order the withdraw from the account and
  the take into the bucket named by the resource's index, and last the single call of
  \<^verbatim>\<open>in_cave\<close> on the component with the proof and the buckets in input order. The
  buckets that the takes of the manifest fill are pairwise distinct, and the first two
  are \<^verbatim>\<open>bucket_0\<close> and \<^verbatim>\<open>bucket_1\<close>. The statement holds for every resource list, the
  non-empty ones in particular.
\<close>

theorem buildInCaveManifest_statements:
  assumes "plain component" "plain account" "plain coll" "plain local_id"
      and "list_all (\<lambda>r. plain (resourceAddress r) \<and> plain (amount r)) rs"
  shows "read_manifest (buildInCaveManifest component account coll local_id rs)
           = Some ([create_proof account coll local_id, pop_proof]
                   @ concat (map (withdraw_and_take account) (enumerate 0 rs))
                   @ [CALL_METHOD component ''in_cave''
                        [MProof ''nft_proof'',
                         MArray ''Bucket'' (map (\<lambda>k. MBucket (bucket_name k)) [0..<length rs])]])
       \<and> map_option (\<lambda>instrs. distinct (taken_buckets instrs))
           (read_manifest (buildInCaveManifest component account coll local_id rs))
           = Some True
       \<and> map_option (\<lambda>instrs. take 2 (taken_buckets instrs))
           (read_manifest (buildInCaveManifest component account coll local_id rs))
           = Some (take (length rs) [''bucket_0'', ''bucket_1''])"
proof -
  let ?instrs = "[create_proof account coll local_id, pop_proof]
                      @ concat (map (withdraw_and_take account) (enumerate 0 rs))
                      @ [CALL_METHOD component ''in_cave''
                           [MProof ''nft_proof'',
                            MArray ''Bucket'' (map (\<lambda>k. MBucket (bucket_name k)) [0..<length rs])]]"
  have moves: "list_all plain_instruction (concat (map (withdraw_and_take account) (enumerate 0 rs)))"
    using assms(2,5)
    by (auto simp: list_all_iff withdraw_and_take_def plain_bucket_name in_set_enumerate_eq plain_names)
  have "list_all plain_instruction ?instrs"
    using assms moves
    by (simp add: create_proof_def pop_proof_def plain_names list_all_iff plain_bucket_name)
  then have "read_manifest (manifest_text ?instrs) = Some ?instrs"
    by (rule read_manifest_text)
  then have reading: "read_manifest (buildInCaveManifest component account coll local_id rs) = Some ?instrs"
    by (simp only: in_cave_text)
  have buckets: "taken_buckets ?instrs = map bucket_name [0..<length rs]"
    using taken_buckets_withdraw_and_take [of account "enumerate 0 rs"]
    by (simp add: taken_buckets_def create_proof_def pop_proof_def map_index_enumerate)
  have names: "bucket_name 0 = ''bucket_0''" "bucket_name (Suc 0) = ''bucket_1''"
    by (simp_all add: bucket_name_def nat_to_string.simps digit_char_def)
  have first_two: "take 2 (map bucket_name [0..<n]) = take n [''bucket_0'', ''bucket_1'']" for n
  proof (cases n)
    case 0
    then show ?thesis by simp
  next
    case (Suc k)
    then show ?thesis using names by (cases k) (simp_all add: upt_rec numeral_2_eq_2)
  qed
  show ?thesis
    unfolding reading option.map buckets
    using distinct_bucket_names [of "length rs"] first_two [of "length rs"] by simp
qed

theorem buildInCaveManifest_statements_witness:
  "read_manifest (buildInCaveManifest ''component_c'' ''account_a'' ''collection_n'' ''#1#''
       [\<lparr>resourceAddress = ''A'', amount = ''10''\<rparr>, \<lparr>resourceAddress = ''B'', amount = ''5''\<rparr>])
     = Some [create_proof ''account_a'' ''collection_n'' ''#1#'', pop_proof,
             CALL_METHOD ''account_a'' ''withdraw'' [MAddress ''A'', MDecimal ''10''],
             TAKE_FROM_WORKTOP ''A'' ''10'' ''bucket_0'',
             CALL_METHOD ''account_a'' ''withdraw'' [MAddress ''B'', MDecimal ''5''],
             TAKE_FROM_WORKTOP ''B'' ''5'' ''bucket_1'',
             CALL_METHOD ''component_c'' ''in_cave''
               [MProof ''nft_proof'', MArray ''Bucket'' [MBucket ''bucket_0'', MBucket ''bucket_1'']]]
   \<and> map_option (\<lambda>instrs. distinct (taken_buckets instrs))
       (read_manifest (buildInCaveManifest ''component_c'' ''account_a'' ''collection_n'' ''#1#''
          [\<lparr>resourceAddress = ''A'', amount = ''10''\<rparr>, \<lparr>resourceAddress = ''B'', amount = ''5''\<rparr>]))
       = Some True
   \<and> map_option (\<lambda>instrs. take 2 (taken_buckets instrs))
       (read_manifest (buildInCaveManifest ''component_c'' ''account_a'' ''collection_n'' ''#1#''
          [\<lparr>resourceAddress = ''A'', amount = ''10''\<rparr>, \<lparr>resourceAddress = ''B'', amount = ''5''\<rparr>]))
       = Some [''bucket_0'', ''bucket_1'']"
proof -
  have names: "bucket_name 0 = ''bucket_0''" "bucket_name (Suc 0) = ''bucket_1''"
    by (simp_all add: bucket_name_def nat_to_string.simps digit_char_def)
  show ?thesis
    using buildInCaveManifest_statements [of "''component_c''" "''account_a''" "''collection_n''" "''#1#''"
      "[\<lparr>resourceAddress = ''A'', amount = ''10''\<rparr>, \<lparr>resourceAddress = ''B'', amount = ''5''\<rparr>]"]
    by (auto simp: plain_def withdraw_and_take_def names upt_rec)
qed

text \<open>
  Claim C3 as stated fails for an amount with double quotes. The builder copies the
  amount into the withdraw and into the take. With the amount below, the manifest of a
  single resource reads as seven statements: the withdraw carries a bucket as a third
  argument, the only take fills \<^verbatim>\<open>bucket_1\<close> and not \<^verbatim>\<open>bucket_0\<close>, and \<^verbatim>\<open>in_cave\<close> is called
  three times.
\<close>

theorem buildInCaveManifest_counterexample:
  \<open>read_manifest
     (buildInCaveManifest ''c'' ''a'' ''n'' ''#1#''
        [\<lparr>resourceAddress = ''A'',
          amount = ''1")\<newline>  Bucket("bucket_1")\<newline>;\<newline>\<newline>CALL_METHOD\<newline>  Address("c")\<newline>  "in_cave"\<newline>  Proof("nft_proof")\<newline>  Decimal("1''\<rparr>])
   = Some [create_proof ''a'' ''n'' ''#1#'', pop_proof,
           CALL_METHOD ''a'' ''withdraw'' [MAddress ''A'', MDecimal ''1'', MBucket ''bucket_1''],
           CALL_METHOD ''c'' ''in_cave'' [MProof ''nft_proof'', MDecimal ''1''],
           TAKE_FROM_WORKTOP ''A'' ''1'' ''bucket_1'',
           CALL_METHOD ''c'' ''in_cave'' [MProof ''nft_proof'', MDecimal ''1'', MBucket ''bucket_0''],
           CALL_METHOD ''c'' ''in_cave'' [MProof ''nft_proof'', MArray ''Bucket'' [MBucket ''bucket_0'']]]\<close>
  by code_simp

text \<open>
  Claim C4, as the code has it. Let no string of the input hold a double quote. Then
  the withdrawal manifest reads as this statement list: the same two statements that
  create and pop the proof, the single call of \<^verbatim>\<open>out_cave\<close> on the component with the
  proof and one array holding one tuple of address and amount per withdrawal, in input
  order and with the strings as given, and last the call that deposits the entire
  worktop to the account. It holds for every list.
\<close>

theorem buildOutCaveManifest_statements:
  assumes "plain component" "plain account" "plain coll" "plain local_id"
      and "list_all (\<lambda>w. plain (resourceAddress w) \<and> plain (amount w)) ws"
  shows "read_manifest (buildOutCaveManifest component account coll local_id ws)
           = Some [create_proof account coll local_id, pop_proof,
                   CALL_METHOD component ''out_cave''
                     [MProof ''nft_proof'',
                      MArray ''Tuple''
                        (map (\<lambda>w. MTuple [MAddress (resourceAddress w), MDecimal (amount w)]) ws)],
                   CALL_METHOD account ''deposit_batch'' [MExpression ''ENTIRE_WORKTOP'']]"
proof -
  let ?instrs = "[create_proof account coll local_id, pop_proof,
                   CALL_METHOD component ''out_cave''
                     [MProof ''nft_proof'',
                      MArray ''Tuple''
                        (map (\<lambda>w. MTuple [MAddress (resourceAddress w), MDecimal (amount w)]) ws)],
                   CALL_METHOD account ''deposit_batch'' [MExpression ''ENTIRE_WORKTOP'']]"
  have "list_all plain_instruction ?instrs"
    using assms by (simp add: create_proof_def pop_proof_def plain_names list_all_iff)
  then have "read_manifest (manifest_text ?instrs) = Some ?instrs"
    by (rule read_manifest_text)
  then show ?thesis by (simp only: out_cave_text)
qed

theorem buildOutCaveManifest_statements_witness:
  "read_manifest (buildOutCaveManifest ''component_c'' ''account_a'' ''collection_n'' ''#1#''
       [\<lparr>resourceAddress = ''A'', amount = ''10''\<rparr>, \<lparr>resourceAddress = ''B'', amount = ''5''\<rparr>])
     = Some [create_proof ''account_a'' ''collection_n'' ''#1#'', pop_proof,
             CALL_METHOD ''component_c'' ''out_cave''
               [MProof ''nft_proof'',
                MArray ''Tuple'' [MTuple [MAddress ''A'', MDecimal ''10''], MTuple [MAddress ''B'', MDecimal ''5'']]],
             CALL_METHOD ''account_a'' ''deposit_batch'' [MExpression ''ENTIRE_WORKTOP'']]"
  using buildOutCaveManifest_statements [of "''component_c''" "''account_a''" "''collection_n''" "''#1#''"
      "[\<lparr>resourceAddress = ''A'', amount = ''10''\<rparr>, \<lparr>resourceAddress = ''B'', amount = ''5''\<rparr>]"]
  by (simp add: plain_def)

text \<open>
  Claim C4 as stated fails for an amount with double quotes: the list of the one
  withdrawal below gives, character for character, the manifest of the two withdrawals
  \<^verbatim>\<open>{A, "10"}\<close> and \<^verbatim>\<open>{B, "5"}\<close>, whose array holds two tuples.
\<close>

theorem buildOutCaveManifest_counterexample:
  \<open>buildOutCaveManifest ''c'' ''a'' ''n'' ''#1#''
     [\<lparr>resourceAddress = ''A'', amount = ''10")), Tuple(Address("B"), Decimal("5''\<rparr>]
   = buildOutCaveManifest ''c'' ''a'' ''n'' ''#1#''
       [\<lparr>resourceAddress = ''A'', amount = ''10''\<rparr>, \<lparr>resourceAddress = ''B'', amount = ''5''\<rparr>]
   \<and> read_manifest
       (buildOutCaveManifest ''c'' ''a'' ''n'' ''#1#''
          [\<lparr>resourceAddress = ''A'', amount = ''10")), Tuple(Address("B"), Decimal("5''\<rparr>])
   = Some [create_proof ''a'' ''n'' ''#1#'', pop_proof,
           CALL_METHOD ''c'' ''out_cave''
             [MProof ''nft_proof'',
              MArray ''Tuple'' [MTuple [MAddress ''A'', MDecimal ''10''], MTuple [MAddress ''B'', MDecimal ''5'']]],
           CALL_METHOD ''a'' ''deposit_batch'' [MExpression ''ENTIRE_WORKTOP'']]\<close>
  by code_simp

text \<open>
  Claim C5, as the code has it. Let no string of the input hold a double quote. Then
  the query manifest reads as exactly three statements: the two that create and pop the
  proof, and the call of \<^verbatim>\<open>query_balances\<close> on the component with the proof and the
  addresses in input order. No statement of the manifest withdraws, deposits or takes.
\<close>

theorem buildLookCaveManifest_statements:
  assumes "plain component" "plain account" "plain coll" "plain local_id" "list_all plain addrs"
  shows "read_manifest (buildLookCaveManifest component account coll local_id addrs)
           = Some [create_proof account coll local_id, pop_proof,
                   CALL_METHOD component ''query_balances''
                     [MProof ''nft_proof'', MArray ''Address'' (map MAddress addrs)]]
       \<and> map_option (list_ex moves_resources)
           (read_manifest (buildLookCaveManifest component account coll local_id addrs))
           = Some False"
proof -
  let ?instrs = "[create_proof account coll local_id, pop_proof,
                  CALL_METHOD component ''query_balances''
                    [MProof ''nft_proof'', MArray ''Address'' (map MAddress addrs)]]"
  have "list_all plain_instruction ?instrs"
    using assms by (simp add: create_proof_def pop_proof_def plain_names list_all_iff)
  then have "read_manifest (manifest_text ?instrs) = Some ?instrs"
    by (rule read_manifest_text)
  then have "read_manifest (buildLookCaveManifest component account coll local_id addrs) = Some ?instrs"
    by (simp only: look_cave_text)
  then show ?thesis by (simp add: create_proof_def pop_proof_def)
qed

theorem buildLookCaveManifest_statements_witness:
  "read_manifest (buildLookCaveManifest ''component_c'' ''account_a'' ''collection_n'' ''#1#'' [''A'', ''B''])
     = Some [create_proof ''account_a'' ''collection_n'' ''#1#'', pop_proof,
             CALL_METHOD ''component_c'' ''query_balances''
               [MProof ''nft_proof'', MArray ''Address'' [MAddress ''A'', MAddress ''B'']]]
   \<and> map_option (list_ex moves_resources)
       (read_manifest (buildLookCaveManifest ''component_c'' ''account_a'' ''collection_n'' ''#1#'' [''A'', ''B'']))
       = Some False"
  using buildLookCaveManifest_statements [of "''component_c''" "''account_a''" "''collection_n''" "''#1#''" "[''A'', ''B'']"]
  by (auto simp: plain_def)

text \<open>
  Claim C5 as stated fails for a resource address with double quotes: with the address
  below, the query manifest reads as five statements, and the fourth withdraws from the
  account.
\<close>

theorem buildLookCaveManifest_counterexample:
  \<open>read_manifest
     (buildLookCaveManifest ''c'' ''a'' ''n'' ''#1#''
        [''A"))\<newline>;\<newline>\<newline>CALL_METHOD\<newline>  Address("a")\<newline>  "withdraw"\<newline>  Address("r")\<newline>  Decimal("1")\<newline>;\<newline>\<newline>CALL_METHOD\<newline>  Address("c")\<newline>  "query_balances"\<newline>  Array<Address>(Address("B''])
   = Some [create_proof ''a'' ''n'' ''#1#'', pop_proof,
           CALL_METHOD ''c'' ''query_balances'' [MProof ''nft_proof'', MArray ''Address'' [MAddress ''A'']],
           CALL_METHOD ''a'' ''withdraw'' [MAddress ''r'', MDecimal ''1''],
           CALL_METHOD ''c'' ''query_balances'' [MArray ''Address'' [MAddress ''B'']]]
   \<and> moves_resources (CALL_METHOD ''a'' ''withdraw'' [MAddress ''r'', MDecimal ''1''])\<close>
  by code_simp


end
